theory Spec2Isabelle
  imports Complex_Main "HOL-Library.AList" "HOL-Library.Multiset"
begin

section \<open>Python values, exceptions and floats\<close>

text \<open>
  The exceptions that \<^verbatim>\<open>macro_analysis.py\<close> raises, catches or lets pass. Each carries
  the text that \<^verbatim>\<open>str(e)\<close> gives. \<open>OtherException\<close> stands for any further subclass
  of \<^verbatim>\<open>Exception\<close> that opening or decoding a file can raise (\<^verbatim>\<open>PermissionError\<close>,
  \<^verbatim>\<open>IsADirectoryError\<close>, ...); \<open>KeyboardInterrupt\<close> and \<open>SystemExit\<close> derive from
  \<^verbatim>\<open>BaseException\<close> only.
\<close>

datatype exn =
    ValueError string
  | FileNotFoundError string
  | CsvError string
  | ZeroDivisionError
  | OtherException string
  | KeyboardInterrupt
  | SystemExit int

text \<open>
  Python floats are IEEE doubles. Their arithmetic is not modelled: the program is
  parametric in the five float operations it uses, over an arbitrary carrier \<open>'f\<close>:
  \<^item> \<open>float_of_str s\<close>: \<^verbatim>\<open>float(s)\<close> on a string, \<open>None\<close> when it raises \<^verbatim>\<open>ValueError\<close>;
  \<^item> \<open>fsum gs\<close>: \<^verbatim>\<open>sum(gs)\<close> on a list of floats;
  \<^item> \<open>truediv x n\<close>: \<^verbatim>\<open>x / n\<close> for a float \<open>x\<close> and a positive int \<open>n\<close>;
  \<^item> \<open>flt x y\<close>: \<^verbatim>\<open>x < y\<close>, the only comparison \<^verbatim>\<open>list.sort\<close> uses;
  \<^item> \<open>fmt2f x\<close>: the format \<^verbatim>\<open>f"{x:.2f}"\<close>.
\<close>

record 'f float_ops =
  float_of_str :: "string \<Rightarrow> 'f option"
  fsum :: "'f list \<Rightarrow> 'f"
  truediv :: "'f \<Rightarrow> nat \<Rightarrow> 'f"
  flt :: "'f \<Rightarrow> 'f \<Rightarrow> bool"
  fmt2f :: "'f \<Rightarrow> string"

section \<open>Rows\<close>

text \<open>
  A row is the \<^verbatim>\<open>dict\<close> that \<^verbatim>\<open>csv.DictReader\<close> yields. Under a column name it holds
  a string, or \<^verbatim>\<open>None\<close> (the reader's \<^verbatim>\<open>restval\<close>) where the line was too short;
  under the key \<^verbatim>\<open>None\<close> (the reader's \<^verbatim>\<open>restkey\<close>) it holds the list of surplus
  cells of a line that was too long. \<open>cells\<close> is the named part, an association list in
  insertion order with distinct keys; \<open>rest\<close> is the entry under the key \<^verbatim>\<open>None\<close>, when
  there is one.
\<close>

record row =
  cells :: "(string \<times> string option) list"
  rest :: "string list option"

text \<open>\<^verbatim>\<open>name in row\<close>, \<^verbatim>\<open>row[name]\<close> (only used after the membership test) and
  \<^verbatim>\<open>row.get(name)\<close>, whose result \<open>None\<close> is Python's \<^verbatim>\<open>None\<close>.\<close>

definition has_key :: "row \<Rightarrow> string \<Rightarrow> bool" where
  "has_key r k = (map_of (cells r) k \<noteq> None)"

definition row_get :: "row \<Rightarrow> string \<Rightarrow> string option" where
  "row_get r k = (case map_of (cells r) k of None \<Rightarrow> None | Some v \<Rightarrow> v)"

text \<open>\<^verbatim>\<open>float(v)\<close> for a cell: \<^verbatim>\<open>TypeError\<close> on \<^verbatim>\<open>None\<close>, \<^verbatim>\<open>ValueError\<close> on a string
  that is no float literal. \<^verbatim>\<open>generate\<close> catches both alike, so both are \<open>None\<close> here.\<close>

definition py_float :: "'f float_ops \<Rightarrow> string option \<Rightarrow> 'f option" where
  "py_float ops v = (case v of None \<Rightarrow> None | Some s \<Rightarrow> float_of_str ops s)"

text \<open>\<^verbatim>\<open>str(v)\<close>, as the f-string \<^verbatim>\<open>f"{v}"\<close> applies it to a cell.\<close>

definition py_str :: "string option \<Rightarrow> string" where
  "py_str v = (case v of None \<Rightarrow> ''None'' | Some s \<Rightarrow> s)"

section \<open>\<^verbatim>\<open>AverageGDPReporter.generate\<close>\<close>

definition schema_msg :: string where
  "schema_msg = ''CSV must contain 'country' and 'gdp' columns''"

definition invalid_msg :: "row \<Rightarrow> string" where
  "invalid_msg r = ''Invalid GDP value: '' @ py_str (row_get r ''gdp'')"

text \<open>
  \<^verbatim>\<open>country_gdp\<close> is a \<^verbatim>\<open>defaultdict(list)\<close>: an insertion-ordered dictionary from the
  value of the \<^verbatim>\<open>country\<close> cell (a string or \<^verbatim>\<open>None\<close>) to the list of floats seen for
  it. \<^verbatim>\<open>country_gdp[c].append(g)\<close> creates the entry at the end when \<open>c\<close> is new and
  leaves an existing entry in its place.
\<close>

type_synonym 'f country_gdp = "(string option \<times> 'f list) list"

definition append_gdp :: "'f country_gdp \<Rightarrow> string option \<Rightarrow> 'f \<Rightarrow> 'f country_gdp" where
  "append_gdp d c g =
     AList.update c ((case map_of d c of None \<Rightarrow> [] | Some gs \<Rightarrow> gs) @ [g]) d"

text \<open>The first loop of \<^verbatim>\<open>generate\<close>, lines 64 to 72: one row at a time, the first
  raise ends it.\<close>

fun accumulate :: "'f float_ops \<Rightarrow> row list \<Rightarrow> 'f country_gdp \<Rightarrow> exn + 'f country_gdp" where
  "accumulate ops [] d = Inr d"
| "accumulate ops (r # rs) d =
     (if \<not> has_key r ''country'' \<or> \<not> has_key r ''gdp'' then Inl (ValueError schema_msg)
      else case py_float ops (row_get r ''gdp'') of
             None \<Rightarrow> Inl (ValueError (invalid_msg r))
           | Some g \<Rightarrow> accumulate ops rs (append_gdp d (row_get r ''country'') g))"

text \<open>The second loop, lines 75 to 78. \<^verbatim>\<open>sum(gdps) / len(gdps)\<close> raises
  \<^verbatim>\<open>ZeroDivisionError\<close> on an empty list.\<close>

fun compute_averages :: "'f float_ops \<Rightarrow> 'f country_gdp \<Rightarrow> exn + (string option \<times> 'f) list" where
  "compute_averages ops [] = Inr []"
| "compute_averages ops ((c, gs) # d) =
     (if length gs = 0 then Inl ZeroDivisionError
      else case compute_averages ops d of
             Inl e \<Rightarrow> Inl e
           | Inr avs \<Rightarrow> Inr ((c, truediv ops (fsum ops gs) (length gs)) # avs))"

subsection \<open>\<^verbatim>\<open>list.sort\<close>\<close>

text \<open>
  CPython's \<^verbatim>\<open>list.sort\<close> compares keys with \<^verbatim>\<open><\<close> only. On a list of fewer than 64
  elements it finds the run the list starts with (\<^verbatim>\<open>count_run\<close>: either non-descending,
  or strictly descending and then reversed in place) and inserts the remaining elements
  one by one by binary search (\<^verbatim>\<open>binarysort\<close>). With \<^verbatim>\<open>reverse=True\<close> the list is
  reversed before and after. Longer lists are cut into such runs which are then merged;
  the result is the same stable sort whenever \<^verbatim>\<open><\<close> is a strict weak order on the keys,
  so the model below is exact for every list on which \<^verbatim>\<open><\<close> is one, and for every list
  of fewer than 64 elements whatever \<^verbatim>\<open><\<close> does (floats: \<^verbatim>\<open>nan\<close>).
\<close>

fun asc_run :: "('a \<Rightarrow> 'a \<Rightarrow> bool) \<Rightarrow> 'a \<Rightarrow> 'a list \<Rightarrow> nat" where
  "asc_run lt p [] = 0"
| "asc_run lt p (x # xs) = (if lt x p then 0 else Suc (asc_run lt x xs))"

fun desc_run :: "('a \<Rightarrow> 'a \<Rightarrow> bool) \<Rightarrow> 'a \<Rightarrow> 'a list \<Rightarrow> nat" where
  "desc_run lt p [] = 0"
| "desc_run lt p (x # xs) = (if lt x p then Suc (desc_run lt x xs) else 0)"

text \<open>\<^verbatim>\<open>count_run\<close>: the length of the initial run and whether it is descending.\<close>

fun count_run :: "('a \<Rightarrow> 'a \<Rightarrow> bool) \<Rightarrow> 'a list \<Rightarrow> nat \<times> bool" where
  "count_run lt [] = (0, False)"
| "count_run lt [x] = (1, False)"
| "count_run lt (x # y # zs) =
     (if lt y x then (2 + desc_run lt y zs, True)
      else (2 + asc_run lt y zs, False))"

text \<open>The binary search of \<^verbatim>\<open>binarysort\<close>: the slot of \<open>pivot\<close> in \<open>xs\<close> between
  \<open>l\<close> and \<open>r\<close>.\<close>

function bisect :: "('a \<Rightarrow> 'a \<Rightarrow> bool) \<Rightarrow> 'a \<Rightarrow> 'a list \<Rightarrow> nat \<Rightarrow> nat \<Rightarrow> nat" where
  "bisect lt pivot xs l r =
     (if l < r then
        (let p = l + (r - l) div 2
         in if lt pivot (xs ! p) then bisect lt pivot xs l p
            else bisect lt pivot xs (p + 1) r)
      else l)"
  by pat_completeness auto
termination
  by (relation "measure (\<lambda>(lt, pivot, xs, l, r). r - l)") auto

declare bisect.simps [simp del]

text \<open>\<^verbatim>\<open>binarysort\<close>: \<open>ys\<close> is the sorted part, each element of the second list in turn is
  put at its slot.\<close>

fun binarysort :: "('a \<Rightarrow> 'a \<Rightarrow> bool) \<Rightarrow> 'a list \<Rightarrow> 'a list \<Rightarrow> 'a list" where
  "binarysort lt ys [] = ys"
| "binarysort lt ys (pivot # zs) =
     (let l = bisect lt pivot ys 0 (length ys)
      in binarysort lt (take l ys @ pivot # drop l ys) zs)"

definition listsort :: "('a \<Rightarrow> 'a \<Rightarrow> bool) \<Rightarrow> 'a list \<Rightarrow> 'a list" where
  "listsort lt xs =
     (if length xs < 2 then xs
      else (let (n, descending) = count_run lt xs;
                run = (if descending then rev (take n xs) else take n xs)
            in binarysort lt run (drop n xs)))"

text \<open>\<^verbatim>\<open>averages.sort(key=lambda x: x[1], reverse=True)\<close>.\<close>

definition sort_averages :: "'f float_ops \<Rightarrow> (string option \<times> 'f) list \<Rightarrow> (string option \<times> 'f) list" where
  "sort_averages ops avs = rev (listsort (\<lambda>a b. flt ops (snd a) (snd b)) (rev avs))"

definition generate :: "'f float_ops \<Rightarrow> row list \<Rightarrow> exn + (string option \<times> 'f) list" where
  "generate ops data =
     (case accumulate ops data [] of
        Inl e \<Rightarrow> Inl e
      | Inr d \<Rightarrow> (case compute_averages ops d of
                   Inl e \<Rightarrow> Inl e
                 | Inr avs \<Rightarrow> Inr (sort_averages ops avs)))"

section \<open>Reading files\<close>

text \<open>
  The file system, as far as \<^verbatim>\<open>read_csv_file\<close> sees it. Opening a path raises
  \<^verbatim>\<open>FileNotFoundError\<close>, or another exception (\<open>OpenFails\<close>), or gives the sequence of
  items that \<^verbatim>\<open>csv.reader\<close> yields for the file: the list of cells of the next line
  (\<open>[]\<close> for a blank line), or a \<^verbatim>\<open>csv.Error\<close>, or another exception raised while
  reading or decoding (\<open>ReadErr\<close>). The strings are what \<^verbatim>\<open>str(e)\<close> gives.
\<close>

datatype reader_item = Record "string list" | CsvErr string | ReadErr string

datatype csv_file = NoSuchFile string | OpenFails string | Opened "reader_item list"

type_synonym filesystem = "string \<Rightarrow> csv_file"

text \<open>
  \<^verbatim>\<open>csv.DictReader.__next__\<close> on a line that is not blank:
  \<^verbatim>\<open>d = dict(zip(self.fieldnames, row))\<close>, then the surplus cells under the key
  \<^verbatim>\<open>None\<close> when the line is longer than the header, or \<^verbatim>\<open>None\<close> under each missing
  column when it is shorter. A column name that occurs twice keeps its first position and
  its last value, as a \<^verbatim>\<open>dict\<close> does.
\<close>

definition make_row :: "string list \<Rightarrow> string list \<Rightarrow> row" where
  "make_row fieldnames cs =
     (let d = foldl (\<lambda>d (k, v). AList.update k (Some v) d) [] (zip fieldnames cs);
          lf = length fieldnames;
          lr = length cs
      in if lf < lr then \<lparr> cells = d, rest = Some (drop lf cs) \<rparr>
         else if lf > lr
           then \<lparr> cells = foldl (\<lambda>d k. AList.update k None d) d (drop lr fieldnames),
                  rest = None \<rparr>
         else \<lparr> cells = d, rest = None \<rparr>)"

text \<open>\<^verbatim>\<open>all(v == '' for v in row.values())\<close>: \<^verbatim>\<open>None\<close> and a list of surplus cells
  are both different from \<^verbatim>\<open>''\<close>.\<close>

definition all_blank :: "row \<Rightarrow> bool" where
  "all_blank r = (list_all (\<lambda>v. v = Some []) (map snd (cells r)) \<and> rest r = None)"

text \<open>\<open>sq s\<close> is \<open>s\<close> between single quotes, as in \<^verbatim>\<open>f"'{filepath}'"\<close>.\<close>

definition sq :: "string \<Rightarrow> string" where
  "sq s = [CHR 0x27] @ s @ [CHR 0x27]"

definition no_headers_msg :: "string \<Rightarrow> string" where
  "no_headers_msg filepath = ''CSV file '' @ sq filepath @ '' has no headers''"

definition parse_error_msg :: "string \<Rightarrow> string \<Rightarrow> string" where
  "parse_error_msg filepath e = ''Error parsing CSV file '' @ sq filepath @ '': '' @ e"

definition no_data_msg :: "string \<Rightarrow> string" where
  "no_data_msg filepath = ''No data found in file '' @ sq filepath"

text \<open>The loop of lines 106 to 110 over the \<^verbatim>\<open>DictReader\<close>, which itself passes over
  blank lines (\<^verbatim>\<open>while row == []\<close>).\<close>

fun read_rows :: "string list \<Rightarrow> reader_item list \<Rightarrow> row list \<Rightarrow> exn + row list" where
  "read_rows fieldnames [] data = Inr data"
| "read_rows fieldnames (CsvErr m # items) data = Inl (CsvError m)"
| "read_rows fieldnames (ReadErr m # items) data = Inl (OtherException m)"
| "read_rows fieldnames (Record cs # items) data =
     (if cs = [] then read_rows fieldnames items data
      else if all_blank (make_row fieldnames cs) then read_rows fieldnames items data
      else read_rows fieldnames items (data @ [make_row fieldnames cs]))"

text \<open>The body of the \<^verbatim>\<open>with\<close> block, lines 101 to 110. \<^verbatim>\<open>reader.fieldnames\<close> is the
  first item of the reader, \<^verbatim>\<open>None\<close> when there is none.\<close>

fun read_body :: "string \<Rightarrow> reader_item list \<Rightarrow> exn + row list" where
  "read_body filepath [] = Inl (ValueError (no_headers_msg filepath))"
| "read_body filepath (CsvErr m # items) = Inl (CsvError m)"
| "read_body filepath (ReadErr m # items) = Inl (OtherException m)"
| "read_body filepath (Record fieldnames # items) =
     (if fieldnames = [] then Inl (ValueError (no_headers_msg filepath))
      else read_rows fieldnames items [])"

definition read_csv_file :: "filesystem \<Rightarrow> string \<Rightarrow> exn + row list" where
  "read_csv_file fs filepath =
     (case fs filepath of
        NoSuchFile m \<Rightarrow> Inl (FileNotFoundError m)
      | OpenFails m \<Rightarrow> Inl (OtherException m)
      | Opened items \<Rightarrow>
          (case read_body filepath items of
             Inl (CsvError m) \<Rightarrow> Inl (ValueError (parse_error_msg filepath m))
           | Inl e \<Rightarrow> Inl e
           | Inr data \<Rightarrow>
               if data = [] then Inl (ValueError (no_data_msg filepath)) else Inr data))"

text \<open>\<^verbatim>\<open>str(e)\<close>, and \<^verbatim>\<open>isinstance(e, Exception)\<close>.\<close>

fun exn_str :: "exn \<Rightarrow> string" where
  "exn_str (ValueError m) = m"
| "exn_str (FileNotFoundError m) = m"
| "exn_str (CsvError m) = m"
| "exn_str ZeroDivisionError = ''division by zero''"
| "exn_str (OtherException m) = m"
| "exn_str KeyboardInterrupt = []"
| "exn_str (SystemExit n) = []"

fun is_Exception :: "exn \<Rightarrow> bool" where
  "is_Exception KeyboardInterrupt = False"
| "is_Exception (SystemExit n) = False"
| "is_Exception e = True"

text \<open>\<^verbatim>\<open>sep.join(xs)\<close>.\<close>

fun join :: "string \<Rightarrow> string list \<Rightarrow> string" where
  "join sep [] = []"
| "join sep [x] = x"
| "join sep (x # y # ys) = x @ sep @ join sep (y # ys)"

definition not_found_msg :: "string \<Rightarrow> string" where
  "not_found_msg filepath = ''File not found: '' @ filepath"

definition read_error_msg :: "string \<Rightarrow> exn \<Rightarrow> string" where
  "read_error_msg filepath e = ''Error reading '' @ filepath @ '': '' @ exn_str e"

text \<open>
  The loop of \<^verbatim>\<open>read_csv_files\<close>, lines 124 to 136. The last argument is not in the
  source: it records the paths handed to \<^verbatim>\<open>read_csv_file\<close> so far, so that the result
  says which files were attempted.
\<close>

fun read_loop ::
  "filesystem \<Rightarrow> string list \<Rightarrow> row list \<Rightarrow> string list \<Rightarrow> string list
     \<Rightarrow> string list \<times> (exn + row list)" where
  "read_loop fs [] all_data errors tried =
     (tried, if errors \<noteq> [] then Inl (ValueError (join [CHR 0x0A] errors)) else Inr all_data)"
| "read_loop fs (filepath # filepaths) all_data errors tried =
     (case read_csv_file fs filepath of
        Inr file_data \<Rightarrow> read_loop fs filepaths (all_data @ file_data) errors (tried @ [filepath])
      | Inl (FileNotFoundError m) \<Rightarrow>
          read_loop fs filepaths all_data (errors @ [not_found_msg filepath]) (tried @ [filepath])
      | Inl e \<Rightarrow>
          if is_Exception e
          then read_loop fs filepaths all_data (errors @ [read_error_msg filepath e])
                 (tried @ [filepath])
          else (tried @ [filepath], Inl e))"

definition read_csv_files :: "filesystem \<Rightarrow> string list \<Rightarrow> string list \<times> (exn + row list)" where
  "read_csv_files fs filepaths = read_loop fs filepaths [] [] []"

section \<open>The reporter registry and \<^verbatim>\<open>format\<close>\<close>

text \<open>\<^verbatim>\<open>ReporterFactory._reporters\<close> once the module is loaded: the decorator of line 56 has
  registered the one reporter class.\<close>

datatype reporter = AverageGDPReporter

definition reporters :: "(string \<times> reporter) list" where
  "reporters = [(''average-gdp'', AverageGDPReporter)]"

definition create :: "string \<Rightarrow> exn + reporter" where
  "create name =
     (case map_of reporters name of
        None \<Rightarrow> Inl (ValueError (''Unknown report '' @ sq name @ ''. Available reports: ''
                                  @ join '', '' (map fst reporters)))
      | Some reporter_class \<Rightarrow> Inr reporter_class)"

text \<open>
  \<^verbatim>\<open>tabulate(table_data, headers=headers, tablefmt="grid")\<close> is a call into the
  \<^verbatim>\<open>tabulate\<close> package, which is not part of the repository: \<^verbatim>\<open>format\<close> is parametric
  in it.
\<close>

type_synonym tabulate = "string list \<Rightarrow> (string option \<times> string) list \<Rightarrow> string"

definition format_report ::
  "'f float_ops \<Rightarrow> tabulate \<Rightarrow> (string option \<times> 'f) list \<Rightarrow> string" where
  "format_report ops tabulate report_data =
     tabulate [''Country'', ''Average GDP (billions USD)'']
       (map (\<lambda>(country, avg_gdp). (country, fmt2f ops avg_gdp)) report_data)"

section \<open>The command line\<close>

text \<open>
  \<^verbatim>\<open>argparse\<close> is modelled as far as \<^verbatim>\<open>parse_arguments\<close> configures it, on command
  lines of the form \<^verbatim>\<open>--files p1 ... pn --report name\<close>: \<open>files\<close> and \<open>report\<close> are the
  values it collects. \<^verbatim>\<open>nargs="+"\<close> refuses an empty list of files and \<^verbatim>\<open>choices\<close>
  refuses a report name that is not registered; on either, \<^verbatim>\<open>argparse\<close> writes its
  usage text, which lists the choices, and an error line to the error stream and raises
  \<^verbatim>\<open>SystemExit(2)\<close>. \<open>Usage cs\<close> stands for that output, \<open>cs\<close> being the choices shown.
\<close>

record cli =
  files :: "string list"
  report :: string

datatype stderr_item = Line string | Usage "string list"

definition parse_arguments :: "cli \<Rightarrow> stderr_item + cli" where
  "parse_arguments args =
     (if files args = [] \<or> report args \<notin> set (map fst reporters)
      then Inl (Usage (map fst reporters))
      else Inr args)"

text \<open>The character of a decimal digit, and \<^verbatim>\<open>str(n)\<close> for a length.\<close>

definition digit_char :: "nat \<Rightarrow> char" where
  "digit_char d = char_of (48 + d)"

function str_nat :: "nat \<Rightarrow> string" where
  "str_nat n =
     (if n < 10 then [digit_char n]
      else str_nat (n div 10) @ [digit_char (n mod 10)])"
  by pat_completeness auto
termination
  by (relation "measure id") auto

declare str_nat.simps [simp del]

text \<open>
  What a run of \<^verbatim>\<open>main\<close> does to the world: the lines printed to the two streams, the
  paths handed to \<^verbatim>\<open>read_csv_file\<close>, and the stages of the run that were entered. A
  \<^verbatim>\<open>KeyboardInterrupt\<close> is an input of the run: \<open>interrupt = Some s\<close> says that it arrives
  as the run enters stage \<open>s\<close>.
\<close>

datatype stage = ParseArgs | LoadFiles | CreateReporter | Generate | Format | Print

record io =
  stdout :: "string list"
  stderr :: "stderr_item list"
  opened :: "string list"
  stages :: "stage list"

definition enter ::
  "stage option \<Rightarrow> stage \<Rightarrow> io \<Rightarrow> (io \<Rightarrow> io \<times> (exn + unit)) \<Rightarrow> io \<times> (exn + unit)" where
  "enter interrupt s w body =
     (let w' = w\<lparr> stages := stages w @ [s] \<rparr>
      in if interrupt = Some s then (w', Inl KeyboardInterrupt) else body w')"

text \<open>\<^verbatim>\<open>print(s, file=sys.stderr)\<close>.\<close>

definition eprint :: "string \<Rightarrow> io \<Rightarrow> io" where
  "eprint s w = w\<lparr> stderr := stderr w @ [Line s] \<rparr>"

text \<open>The \<^verbatim>\<open>try\<close> block of \<^verbatim>\<open>main\<close>, lines 170 to 186.\<close>

definition main_try ::
  "'f float_ops \<Rightarrow> tabulate \<Rightarrow> filesystem \<Rightarrow> cli \<Rightarrow> stage option \<Rightarrow> io \<times> (exn + unit)" where
  "main_try ops tabulate fs argv interrupt =
     enter interrupt ParseArgs \<lparr> stdout = [], stderr = [], opened = [], stages = [] \<rparr> (\<lambda>w.
       case parse_arguments argv of
         Inl usage \<Rightarrow> (w\<lparr> stderr := stderr w @ [usage] \<rparr>, Inl (SystemExit 2))
       | Inr args \<Rightarrow>
           enter interrupt LoadFiles
             (eprint (''Reading '' @ str_nat (length (files args)) @ '' file(s)...'') w) (\<lambda>w.
           case read_csv_files fs (files args) of
             (tried, Inl e) \<Rightarrow> (w\<lparr> opened := tried \<rparr>, Inl e)
           | (tried, Inr data) \<Rightarrow>
               (let w = eprint (''Loaded '' @ str_nat (length data) @ '' records'')
                          (w\<lparr> opened := tried \<rparr>)
                in if data = []
                   then (eprint ''No data found in the provided files.'' w, Inl (SystemExit 1))
                   else
                     enter interrupt CreateReporter w (\<lambda>w.
                     case create (report args) of
                       Inl e \<Rightarrow> (w, Inl e)
                     | Inr AverageGDPReporter \<Rightarrow>
                         enter interrupt Generate w (\<lambda>w.
                         case generate ops data of
                           Inl e \<Rightarrow> (w, Inl e)
                         | Inr report_data \<Rightarrow>
                             enter interrupt Format w (\<lambda>w.
                             let table = format_report ops tabulate report_data
                             in enter interrupt Print w (\<lambda>w.
                                  (w\<lparr> stdout := stdout w @ [[CHR 0x0A] @ table] \<rparr>, Inr ()))))))))"

record outcome = io +
  exit_code :: int

definition finish :: "io \<Rightarrow> int \<Rightarrow> outcome" where
  "finish w code = \<lparr> stdout = stdout w, stderr = stderr w, opened = opened w,
                     stages = stages w, exit_code = code \<rparr>"

text \<open>\<^verbatim>\<open>main\<close> with its handlers, lines 188 to 199. A \<^verbatim>\<open>SystemExit\<close> is caught by none
  of them and ends the process with its code; a run that returns ends it with 0.\<close>

definition main ::
  "'f float_ops \<Rightarrow> tabulate \<Rightarrow> filesystem \<Rightarrow> cli \<Rightarrow> stage option \<Rightarrow> outcome" where
  "main ops tabulate fs argv interrupt =
     (case main_try ops tabulate fs argv interrupt of
        (w, Inr u) \<Rightarrow> finish w 0
      | (w, Inl (FileNotFoundError m)) \<Rightarrow> finish (eprint (''Error: '' @ m) w) 1
      | (w, Inl (ValueError m)) \<Rightarrow> finish (eprint (''Error: '' @ m) w) 1
      | (w, Inl KeyboardInterrupt) \<Rightarrow>
          finish (eprint ([CHR 0x0A] @ ''Operation cancelled by user'') w) 130
      | (w, Inl (SystemExit code)) \<Rightarrow> finish w code
      | (w, Inl e) \<Rightarrow> finish (eprint (''Unexpected error: '' @ exn_str e) w) 1)"

section \<open>An instance of the float operations\<close>

text \<open>
  To run the model, the float operations are instantiated with exact arithmetic on the
  rationals, extended with \<^verbatim>\<open>nan\<close>. The instance reads the strings \<^verbatim>\<open>nan\<close> and the
  unsigned decimal integers and refuses every other string; on these it agrees with
  Python wherever the sums and quotients involved are doubles, as all those below are.
  An operation with a \<^verbatim>\<open>nan\<close> argument gives \<^verbatim>\<open>nan\<close>, and every comparison with
  \<^verbatim>\<open>nan\<close> is false.
\<close>

datatype xfloat = Fin rat | NaN

definition is_digit :: "char \<Rightarrow> bool" where
  "is_digit c = (48 \<le> (of_char c :: nat) \<and> (of_char c :: nat) \<le> 57)"

definition nat_of_digits :: "string \<Rightarrow> nat" where
  "nat_of_digits s = foldl (\<lambda>n c. 10 * n + (of_char c - 48)) 0 s"

definition xfloat_of_str :: "string \<Rightarrow> xfloat option" where
  "xfloat_of_str s =
     (if s = ''nan'' then Some NaN
      else if s \<noteq> [] \<and> list_all is_digit s then Some (Fin (of_nat (nat_of_digits s)))
      else None)"

fun xadd :: "xfloat \<Rightarrow> xfloat \<Rightarrow> xfloat" where
  "xadd (Fin a) (Fin b) = Fin (a + b)"
| "xadd _ _ = NaN"

fun xdiv :: "xfloat \<Rightarrow> nat \<Rightarrow> xfloat" where
  "xdiv (Fin a) n = Fin (a / of_nat n)"
| "xdiv NaN n = NaN"

fun xlt :: "xfloat \<Rightarrow> xfloat \<Rightarrow> bool" where
  "xlt (Fin a) (Fin b) = (a < b)"
| "xlt _ _ = False"

text \<open>Two digits after the point, the nearest hundredth, ties to the even one.\<close>

definition round_half_even :: "rat \<Rightarrow> int" where
  "round_half_even q =
     (let f = \<lfloor>q\<rfloor>; r = q - of_int f
      in if r < 1 / 2 then f else if 1 / 2 < r then f + 1 else if even f then f else f + 1)"

fun xfmt2f :: "xfloat \<Rightarrow> string" where
  "xfmt2f NaN = ''nan''"
| "xfmt2f (Fin q) =
     (let n = nat (round_half_even (\<bar>q\<bar> * 100))
      in (if q < 0 then ''-'' else []) @ str_nat (n div 100) @ ''.''
           @ [digit_char (n mod 100 div 10), digit_char (n mod 10)])"

definition exact_ops :: "xfloat float_ops" where
  "exact_ops = \<lparr> float_of_str = xfloat_of_str, fsum = foldl xadd (Fin 0),
                  truediv = xdiv, flt = xlt, fmt2f = xfmt2f \<rparr>"

text \<open>A row with the two columns \<^verbatim>\<open>country\<close> and \<^verbatim>\<open>gdp\<close>.\<close>

definition mk_row :: "string \<Rightarrow> string \<Rightarrow> row" where
  "mk_row c g = \<lparr> cells = [(''country'', Some c), (''gdp'', Some g)], rest = None \<rparr>"

section \<open>The vocabulary of the specification\<close>

text \<open>
  The definitions of this section are not code: they name what the specification talks
  about, so that the theorems can say it.
\<close>

subsection \<open>Rows and their values\<close>

text \<open>The value under \<^verbatim>\<open>country\<close>; a row that lacks one of the two required keys; a row
  whose \<^verbatim>\<open>gdp\<close> cell \<^verbatim>\<open>float\<close> refuses; a row that \<^verbatim>\<open>generate\<close> accepts.\<close>

definition country :: "row \<Rightarrow> string option" where
  "country r = row_get r ''country''"

definition lacks_column :: "row \<Rightarrow> bool" where
  "lacks_column r = (\<not> has_key r ''country'' \<or> \<not> has_key r ''gdp'')"

definition unparseable :: "'f float_ops \<Rightarrow> row \<Rightarrow> bool" where
  "unparseable ops r = (py_float ops (row_get r ''gdp'') = None)"

definition row_ok :: "'f float_ops \<Rightarrow> row \<Rightarrow> bool" where
  "row_ok ops r = (\<not> lacks_column r \<and> \<not> unparseable ops r)"

text \<open>The parsed \<^verbatim>\<open>gdp\<close> value of a row, the parsed values of the rows of one country in
  dataset order, and the mean as \<^verbatim>\<open>generate\<close> computes it.\<close>

definition gdp_value :: "'f float_ops \<Rightarrow> row \<Rightarrow> 'f" where
  "gdp_value ops r = the (py_float ops (row_get r ''gdp''))"

definition gdps_of :: "'f float_ops \<Rightarrow> string option \<Rightarrow> row list \<Rightarrow> 'f list" where
  "gdps_of ops c data = map (gdp_value ops) (filter (\<lambda>r. country r = c) data)"

definition mean :: "'f float_ops \<Rightarrow> 'f list \<Rightarrow> 'f" where
  "mean ops gs = truediv ops (fsum ops gs) (length gs)"

subsection \<open>First appearance\<close>

text \<open>\<open>first_seen xs\<close> lists the elements of \<open>xs\<close> once each, in the order in which they
  first occur; \<open>first_pos x xs\<close> is the index at which \<open>x\<close> first occurs in \<open>xs\<close>.\<close>

definition see :: "'a list \<Rightarrow> 'a \<Rightarrow> 'a list" where
  "see ks x = (if x \<in> set ks then ks else ks @ [x])"

definition first_seen :: "'a list \<Rightarrow> 'a list" where
  "first_seen xs = foldl see [] xs"

definition first_pos :: "'a \<Rightarrow> 'a list \<Rightarrow> nat" where
  "first_pos x xs = length (takeWhile (\<lambda>y. y \<noteq> x) xs)"

text \<open>The report before it is sorted: one pair per country, in order of first appearance.\<close>

definition averages_of :: "'f float_ops \<Rightarrow> row list \<Rightarrow> (string option \<times> 'f) list" where
  "averages_of ops data =
     map (\<lambda>c. (c, mean ops (gdps_of ops c data))) (first_seen (map country data))"

subsection \<open>Orders\<close>

text \<open>
  \<open>swo_on S lt\<close>: on the set \<open>S\<close>, \<open>lt\<close> is a strict weak order (irreflexive, transitive,
  and so is "not less"). Python's \<^verbatim>\<open><\<close> is one on every set of floats without
  \<^verbatim>\<open>nan\<close>. \<open>tied lt a b\<close>: neither is less than the other; for floats other than
  \<^verbatim>\<open>nan\<close>, that they are numerically equal.
\<close>

definition swo_on :: "'a set \<Rightarrow> ('a \<Rightarrow> 'a \<Rightarrow> bool) \<Rightarrow> bool" where
  "swo_on S lt =
     ((\<forall>x\<in>S. \<not> lt x x) \<and>
      (\<forall>x\<in>S. \<forall>y\<in>S. \<forall>z\<in>S. lt x y \<and> lt y z \<longrightarrow> lt x z) \<and>
      (\<forall>x\<in>S. \<forall>y\<in>S. \<forall>z\<in>S. \<not> lt x y \<and> \<not> lt y z \<longrightarrow> \<not> lt x z))"

definition tied :: "('a \<Rightarrow> 'a \<Rightarrow> bool) \<Rightarrow> 'a \<Rightarrow> 'a \<Rightarrow> bool" where
  "tied lt a b = (\<not> lt a b \<and> \<not> lt b a)"

definition avg_lt :: "'f float_ops \<Rightarrow> (string option \<times> 'f) \<Rightarrow> (string option \<times> 'f) \<Rightarrow> bool" where
  "avg_lt ops a b = flt ops (snd a) (snd b)"

subsection \<open>Files\<close>

text \<open>
  Of the items of a reader: whether one is a line, the lines among them, the rows that
  \<^verbatim>\<open>csv.DictReader\<close> makes of the lines that are not blank (the data rows of the file),
  and those of them that \<^verbatim>\<open>read_csv_file\<close> keeps.
\<close>

fun is_record :: "reader_item \<Rightarrow> bool" where
  "is_record (Record cs) = True"
| "is_record _ = False"

fun records_of :: "reader_item list \<Rightarrow> string list list" where
  "records_of [] = []"
| "records_of (Record cs # items) = cs # records_of items"
| "records_of (_ # items) = records_of items"

definition dict_rows :: "string list \<Rightarrow> reader_item list \<Rightarrow> row list" where
  "dict_rows fieldnames items =
     map (make_row fieldnames) (filter (\<lambda>cs. cs \<noteq> []) (records_of items))"

definition kept_rows :: "string list \<Rightarrow> reader_item list \<Rightarrow> row list" where
  "kept_rows fieldnames items = filter (\<lambda>r. \<not> all_blank r) (dict_rows fieldnames items)"

text \<open>A line that holds nothing: a blank line, or a line with exactly as many cells as
  the header has names, each the empty string.\<close>

definition blank_line :: "string list \<Rightarrow> string list \<Rightarrow> bool" where
  "blank_line fieldnames cs =
     (cs = [] \<or> (length cs = length fieldnames \<and> list_all (\<lambda>c. c = []) cs))"

text \<open>For one path: the line that \<^verbatim>\<open>read_csv_files\<close> records when loading it fails, and
  the rows it contributes when loading it succeeds.\<close>

definition failure_msg :: "filesystem \<Rightarrow> string \<Rightarrow> string option" where
  "failure_msg fs filepath =
     (case read_csv_file fs filepath of
        Inr file_data \<Rightarrow> None
      | Inl (FileNotFoundError m) \<Rightarrow> Some (not_found_msg filepath)
      | Inl e \<Rightarrow> Some (read_error_msg filepath e))"

definition rows_of :: "filesystem \<Rightarrow> string \<Rightarrow> row list" where
  "rows_of fs filepath =
     (case read_csv_file fs filepath of Inr file_data \<Rightarrow> file_data | Inl e \<Rightarrow> [])"

subsection \<open>Sample inputs\<close>

definition sample_data :: "row list" where
  "sample_data = [mk_row ''A'' ''1'', mk_row ''B'' ''3'', mk_row ''C'' ''1'', mk_row ''B'' ''4'']"

definition sample_report :: "(string option \<times> xfloat) list" where
  "sample_report = [(Some ''B'', Fin (7 / 2)), (Some ''A'', Fin 1), (Some ''C'', Fin 1)]"

text \<open>Two file systems, and a stand-in for \<^verbatim>\<open>tabulate\<close> that joins the cells of a line with
  a bar.\<close>

definition sample_fs :: filesystem where
  "sample_fs p =
     (if p = ''a.csv'' then Opened [Record [''country'', ''gdp''], Record [''USA'', ''1'']]
      else if p = ''b.csv'' then Opened [Record [''country'', ''gdp''], Record [''China'', ''2'']]
      else if p = ''e.csv'' then Opened [Record [''country'', ''gdp'']]
      else NoSuchFile ''No such file'')"

definition blank_fs :: filesystem where
  "blank_fs p =
     (if p = ''a.csv''
      then Opened [Record [''country'', ''gdp''], Record ['''', ''''], Record [],
                   Record [''USA'', ''''], Record ['''', '''']]
      else if p = ''b.csv''
      then Opened [Record [''country'', ''gdp''], Record ['''', ''''], Record []]
      else NoSuchFile ''No such file'')"

definition plain_table :: tabulate where
  "plain_table headers table_data =
     join [CHR 0x0A] (join '' | '' headers #
       map (\<lambda>(c, v). join '' | '' [case c of None \<Rightarrow> [] | Some n \<Rightarrow> n, v]) table_data)"

section \<open>Lemmas\<close>

subsection \<open>The first loop of \<^verbatim>\<open>generate\<close>\<close>

lemma accumulate_first_bad:
  "list_all (row_ok ops) pre \<Longrightarrow> \<not> row_ok ops r \<Longrightarrow>
   accumulate ops (pre @ r # post) d =
     Inl (ValueError (if lacks_column r then schema_msg else invalid_msg r))"
proof (induction pre arbitrary: d)
  case Nil
  then show ?case
    by (auto simp: row_ok_def lacks_column_def unparseable_def)
next
  case (Cons a pre)
  then show ?case
    by (auto simp: row_ok_def lacks_column_def unparseable_def)
qed

lemma accumulate_all_ok:
  "list_all (row_ok ops) data \<Longrightarrow> \<exists>d'. accumulate ops data d = Inr d'"
  by (induction data arbitrary: d)
     (auto simp: row_ok_def lacks_column_def unparseable_def)

lemma accumulate_Inr_ok:
  "accumulate ops data d = Inr d' \<Longrightarrow> list_all (row_ok ops) data"
  by (induction data arbitrary: d)
     (auto simp: row_ok_def lacks_column_def unparseable_def split: if_splits option.splits)

lemma keys_append_gdp: "map fst (append_gdp d c g) = see (map fst d) c"
  by (induction d) (auto simp: append_gdp_def see_def)

lemma accumulate_keys:
  "accumulate ops data d = Inr d' \<Longrightarrow> map fst d' = foldl see (map fst d) (map country data)"
  by (induction data arbitrary: d)
     (auto simp: keys_append_gdp country_def split: if_splits option.splits)

lemma map_of_append_gdp:
  "map_of (append_gdp d c g) k =
     (if k = c then Some ((case map_of d c of None \<Rightarrow> [] | Some gs \<Rightarrow> gs) @ [g]) else map_of d k)"
  by (simp add: append_gdp_def update_conv')

lemma accumulate_values:
  "accumulate ops data d = Inr d' \<Longrightarrow>
   map_of d' c =
     (if c \<in> country ` set data
      then Some ((case map_of d c of None \<Rightarrow> [] | Some gs \<Rightarrow> gs) @ gdps_of ops c data)
      else map_of d c)"
proof (induction data arbitrary: d)
  case Nil
  then show ?case by simp
next
  case (Cons r rs)
  from Cons.prems obtain g where
    g: "py_float ops (row_get r ''gdp'') = Some g"
    and rec: "accumulate ops rs (append_gdp d (row_get r ''country'') g) = Inr d'"
    by (auto split: if_splits option.splits)
  have gv: "gdp_value ops r = g" by (simp add: gdp_value_def g)
  show ?case
    unfolding Cons.IH [OF rec]
    by (auto simp: map_of_append_gdp gdps_of_def country_def gv filter_empty_conv image_iff split: option.splits)
qed

lemma compute_averages_nonempty:
  "\<forall>gs \<in> snd ` set d. gs \<noteq> [] \<Longrightarrow>
   compute_averages ops d = Inr (map (\<lambda>(c, gs). (c, mean ops gs)) d)"
  by (induction d) (auto simp: mean_def)

subsection \<open>First appearance\<close>

lemma set_foldl_see: "set (foldl see ks xs) = set ks \<union> set xs"
  by (induction xs arbitrary: ks) (auto simp: see_def)

lemma distinct_foldl_see: "distinct ks \<Longrightarrow> distinct (foldl see ks xs)"
  by (induction xs arbitrary: ks) (auto simp: see_def)

lemma set_first_seen: "set (first_seen xs) = set xs"
  by (simp add: first_seen_def set_foldl_see)

lemma distinct_first_seen: "distinct (first_seen xs)"
  by (simp add: first_seen_def distinct_foldl_see)

lemma first_seen_snoc: "first_seen (xs @ [x]) = see (first_seen xs) x"
  by (simp add: first_seen_def)

lemma first_pos_less: "x \<in> set xs \<Longrightarrow> first_pos x xs < length xs"
  unfolding first_pos_def by (induction xs) auto

lemma first_pos_append_in: "x \<in> set xs \<Longrightarrow> first_pos x (xs @ ys) = first_pos x xs"
  unfolding first_pos_def by (simp add: takeWhile_append1 [where x = x])

lemma first_pos_append_notin: "x \<notin> set xs \<Longrightarrow> first_pos x (xs @ ys) = length xs + first_pos x ys"
  unfolding first_pos_def by (subst takeWhile_append2) auto

lemma first_seen_sorted:
  "sorted_wrt (\<lambda>a b. first_pos a xs < first_pos b xs) (first_seen xs)"
proof (induction xs rule: rev_induct)
  case Nil
  then show ?case by (simp add: first_seen_def)
next
  case (snoc x xs)
  have old: "sorted_wrt (\<lambda>a b. first_pos a (xs @ [x]) < first_pos b (xs @ [x])) (first_seen xs)"
    using snoc
    by (rule sorted_wrt_mono_rel [rotated]) (simp add: set_first_seen first_pos_append_in)
  show ?case
  proof (cases "x \<in> set xs")
    case True
    then show ?thesis using old by (simp add: first_seen_snoc see_def set_first_seen)
  next
    case False
    have "first_pos a (xs @ [x]) < first_pos x (xs @ [x])" if "a \<in> set xs" for a
      using that False
      by (simp add: first_pos_append_in first_pos_append_notin first_pos_less trans_less_add1)
    then show ?thesis using old False
      by (simp add: first_seen_snoc see_def set_first_seen sorted_wrt_append)
  qed
qed

subsection \<open>Binary insertion on a strict weak order\<close>

lemma swo_on_subset: "swo_on S lt \<Longrightarrow> T \<subseteq> S \<Longrightarrow> swo_on T lt"
  unfolding swo_on_def by blast

lemma swo_irrefl: "swo_on S lt \<Longrightarrow> x \<in> S \<Longrightarrow> \<not> lt x x"
  unfolding swo_on_def by blast

lemma swo_trans: "swo_on S lt \<Longrightarrow> x \<in> S \<Longrightarrow> y \<in> S \<Longrightarrow> z \<in> S \<Longrightarrow> lt x y \<Longrightarrow> lt y z \<Longrightarrow> lt x z"
  unfolding swo_on_def by blast

lemma swo_negtrans:
  "swo_on S lt \<Longrightarrow> x \<in> S \<Longrightarrow> y \<in> S \<Longrightarrow> z \<in> S \<Longrightarrow> \<not> lt x y \<Longrightarrow> \<not> lt y z \<Longrightarrow> \<not> lt x z"
  unfolding swo_on_def by blast

lemma swo_asym: "swo_on S lt \<Longrightarrow> x \<in> S \<Longrightarrow> y \<in> S \<Longrightarrow> lt x y \<Longrightarrow> \<not> lt y x"
  using swo_irrefl swo_trans by metis

lemma swo_lt_le: "swo_on S lt \<Longrightarrow> x \<in> S \<Longrightarrow> y \<in> S \<Longrightarrow> z \<in> S \<Longrightarrow> lt x y \<Longrightarrow> \<not> lt z y \<Longrightarrow> lt x z"
  using swo_negtrans by metis

lemma bisect_slot:
  "l \<le> r \<Longrightarrow> r \<le> length ys \<Longrightarrow>
         (\<forall>i<l. \<not> lt pivot (ys ! i)) \<Longrightarrow>
         (\<forall>i. r \<le> i \<and> i < length ys \<longrightarrow> lt pivot (ys ! i)) \<Longrightarrow>
         swo_on (insert pivot (set ys)) lt \<Longrightarrow>
         sorted_wrt (\<lambda>a b. \<not> lt b a) ys \<Longrightarrow>
         bisect lt pivot ys l r \<le> length ys \<and>
         (\<forall>i<bisect lt pivot ys l r. \<not> lt pivot (ys ! i)) \<and>
         (\<forall>i. bisect lt pivot ys l r \<le> i \<and> i < length ys \<longrightarrow> lt pivot (ys ! i))"
proof (induction lt pivot ys l r rule: bisect.induct)
  case (1 lt pivot ys l r)
  show ?case
  proof (cases "l < r")
    case False
    then have "bisect lt pivot ys l r = l" by (simp add: bisect.simps [of lt pivot ys l r])
    moreover from False "1.prems" have "l = r" by simp
    ultimately show ?thesis using "1.prems" by simp
  next
    case True
    define p where "p = l + (r - l) div 2"
    have p: "l \<le> p" "p < r" "p < length ys" using True "1.prems" by (auto simp: p_def)
    have memp: "ys ! p \<in> set ys" using p by simp
    show ?thesis
    proof (cases "lt pivot (ys ! p)")
      case lt: True
      have eq: "bisect lt pivot ys l r = bisect lt pivot ys l p"
        using True lt by (simp add: bisect.simps [of lt pivot ys l r] p_def Let_def)
      have above: "lt pivot (ys ! i)" if "p \<le> i \<and> i < length ys" for i
      proof (cases "i = p")
        case True then show ?thesis using lt by simp
      next
        case False
        with that have "p < i" "i < length ys" by auto
        with "1.prems"(6) have "\<not> lt (ys ! i) (ys ! p)"
          by (simp add: sorted_wrt_iff_nth_less)
        moreover have "ys ! i \<in> set ys" using that by simp
        ultimately show ?thesis
          using swo_lt_le [OF "1.prems"(5), of pivot "ys ! p" "ys ! i"] lt memp by simp
      qed
      show ?thesis unfolding eq
        using "1.IH"(1) [OF True p_def lt] p "1.prems" above
        by simp
    next
      case nlt: False
      have eq: "bisect lt pivot ys l r = bisect lt pivot ys (p + 1) r"
        using True nlt by (simp add: bisect.simps [of lt pivot ys l r] p_def Let_def)
      have below: "\<not> lt pivot (ys ! i)" if "i < p + 1" for i
      proof (cases "i = p")
        case True then show ?thesis using nlt by simp
      next
        case False
        with that have "i < p" by simp
        with "1.prems"(6) p have "\<not> lt (ys ! p) (ys ! i)"
          by (simp add: sorted_wrt_iff_nth_less)
        moreover have "ys ! i \<in> set ys" using \<open>i < p\<close> p by simp
        ultimately show ?thesis
          using swo_negtrans [OF "1.prems"(5), of pivot "ys ! p" "ys ! i"] nlt memp by simp
      qed
      show ?thesis unfolding eq
        using "1.IH"(2) [OF True p_def nlt] p "1.prems" below
        by simp
    qed
  qed
qed

lemma insert_slot_sorted:
  assumes swo: "swo_on (insert pivot (set ys)) lt"
    and srt: "sorted_wrt (\<lambda>a b. \<not> lt b a) ys"
    and k: "k \<le> length ys"
    and lo: "\<forall>i<k. \<not> lt pivot (ys ! i)"
    and hi: "\<forall>i. k \<le> i \<and> i < length ys \<longrightarrow> lt pivot (ys ! i)"
  shows "sorted_wrt (\<lambda>a b. \<not> lt b a) (take k ys @ pivot # drop k ys)"
proof -
  have t: "sorted_wrt (\<lambda>a b. \<not> lt b a) (take k ys)"
    and d: "sorted_wrt (\<lambda>a b. \<not> lt b a) (drop k ys)"
    and td: "\<forall>x\<in>set (take k ys). \<forall>y\<in>set (drop k ys). \<not> lt y x"
    using srt sorted_wrt_append [of "\<lambda>a b. \<not> lt b a" "take k ys" "drop k ys"] by simp_all
  have a: "\<not> lt pivot x" if "x \<in> set (take k ys)" for x
  proof -
    from that obtain i where "i < length (take k ys)" "x = take k ys ! i"
      by (auto simp: in_set_conv_nth)
    then show ?thesis using lo by simp
  qed
  have b: "lt pivot y" if "y \<in> set (drop k ys)" for y
  proof -
    from that obtain i where "i < length (drop k ys)" "y = drop k ys ! i"
      by (auto simp: in_set_conv_nth)
    then show ?thesis using hi k by simp
  qed
  have c: "\<not> lt y pivot" if "y \<in> set (drop k ys)" for y
    using b [OF that] swo_asym [OF swo, of pivot y] that in_set_dropD [OF that] by auto
  show ?thesis
    using t d td a c by (auto simp: sorted_wrt_append)
qed

lemma insert_slot_stable:
  assumes swo: "swo_on (insert a (insert pivot (set ys))) lt"
    and hi: "\<forall>y\<in>set (drop k ys). lt pivot y"
  shows "filter (tied lt a) (take k ys @ pivot # drop k ys) = filter (tied lt a) (ys @ [pivot])"
proof (cases "tied lt a pivot")
  case False
  have "filter (tied lt a) (take k ys) @ filter (tied lt a) (drop k ys) = filter (tied lt a) ys"
    by (metis append_take_drop_id filter_append)
  then show ?thesis using False by simp
next
  case True
  have "\<not> tied lt a y" if "y \<in> set (drop k ys)" for y
  proof
    assume ty: "tied lt a y"
    have y: "y \<in> set ys" using that by (rule in_set_dropD)
    have "\<not> lt pivot y"
      using swo_negtrans [OF swo, of pivot a y] True ty y by (simp add: tied_def)
    then show False using hi that by simp
  qed
  then have e: "filter (tied lt a) (drop k ys) = []" by (simp add: filter_empty_conv)
  have "filter (tied lt a) (take k ys) @ filter (tied lt a) (drop k ys) = filter (tied lt a) ys"
    by (metis append_take_drop_id filter_append)
  then show ?thesis using True e by simp
qed

lemma mset_binarysort: "mset (binarysort lt ys zs) = mset ys + mset zs"
proof (induction zs arbitrary: ys)
  case Nil
  then show ?case by simp
next
  case (Cons z zs)
  have "mset (take k ys) + mset (drop k ys) = mset ys" for k
    by (metis append_take_drop_id mset_append)
  then show ?case by (simp add: Cons.IH Let_def add.assoc [symmetric])
qed

lemma binarysort_sorted_stable:
  "sorted_wrt (\<lambda>a b. \<not> lt b a) ys \<Longrightarrow> swo_on (insert a (set ys \<union> set zs)) lt \<Longrightarrow>
   sorted_wrt (\<lambda>a b. \<not> lt b a) (binarysort lt ys zs) \<and>
   filter (tied lt a) (binarysort lt ys zs) = filter (tied lt a) (ys @ zs)"
proof (induction zs arbitrary: ys)
  case Nil
  then show ?case by simp
next
  case (Cons z zs)
  define k where "k = bisect lt z ys 0 (length ys)"
  have swo1: "swo_on (insert z (set ys)) lt"
    using Cons.prems(2) by (rule swo_on_subset) auto
  have slot: "k \<le> length ys \<and> (\<forall>i<k. \<not> lt z (ys ! i)) \<and>
      (\<forall>i. k \<le> i \<and> i < length ys \<longrightarrow> lt z (ys ! i))"
    unfolding k_def using Cons.prems(1) swo1 by (intro bisect_slot) auto
  have hi: "\<forall>y\<in>set (drop k ys). lt z y"
  proof
    fix y assume "y \<in> set (drop k ys)"
    then obtain i where "i < length (drop k ys)" "y = drop k ys ! i"
      by (auto simp: in_set_conv_nth)
    then show "lt z y" using slot by simp
  qed
  have s: "sorted_wrt (\<lambda>a b. \<not> lt b a) (take k ys @ z # drop k ys)"
    using swo1 Cons.prems(1) slot by (intro insert_slot_sorted) simp_all
  have st: "filter (tied lt a) (take k ys @ z # drop k ys) = filter (tied lt a) (ys @ [z])"
    using hi by (intro insert_slot_stable swo_on_subset [OF Cons.prems(2)]) auto
  have sets: "set (take k ys @ z # drop k ys) = insert z (set ys)"
    by (metis append_take_drop_id list.simps(15) set_append Un_insert_right)
  have swo2: "swo_on (insert a (set (take k ys @ z # drop k ys) \<union> set zs)) lt"
    unfolding sets using Cons.prems(2) by (rule swo_on_subset) auto
  have unf: "binarysort lt ys (z # zs) = binarysort lt (take k ys @ z # drop k ys) zs"
    by (simp add: k_def Let_def)
  have "filter (tied lt a) ((take k ys @ z # drop k ys) @ zs) = filter (tied lt a) (ys @ z # zs)"
    using st by (simp only: filter_append) simp
  with Cons.IH [OF s swo2] show ?case
    unfolding unf by simp
qed

subsection \<open>Runs, and the sort as a whole\<close>

lemma asc_run_sorted:
  "swo_on (insert p (set xs)) lt \<Longrightarrow>
   sorted_wrt (\<lambda>a b. \<not> lt b a) (take (Suc (asc_run lt p xs)) (p # xs))"
proof (induction xs arbitrary: p)
  case Nil
  then show ?case by simp
next
  case (Cons x xs)
  show ?case
  proof (cases "lt x p")
    case True
    then show ?thesis by simp
  next
    case False
    have swo1: "swo_on (insert x (set xs)) lt"
      using Cons.prems by (rule swo_on_subset) auto
    have ih: "sorted_wrt (\<lambda>a b. \<not> lt b a) (x # take (asc_run lt x xs) xs)"
      using Cons.IH [OF swo1] by simp
    have "\<not> lt y p" if "y \<in> set (take (asc_run lt x xs) xs)" for y
    proof -
      have "\<not> lt y x" using ih that by simp
      moreover have "y \<in> set xs" using that by (rule in_set_takeD)
      ultimately show ?thesis
        using swo_negtrans [OF Cons.prems, of y x p] False by simp
    qed
    then show ?thesis using False ih by simp
  qed
qed

lemma desc_run_sorted:
  "swo_on (insert p (set xs)) lt \<Longrightarrow>
   sorted_wrt (\<lambda>a b. lt b a) (take (Suc (desc_run lt p xs)) (p # xs))"
proof (induction xs arbitrary: p)
  case Nil
  then show ?case by simp
next
  case (Cons x xs)
  show ?case
  proof (cases "lt x p")
    case False
    then show ?thesis by simp
  next
    case True
    have swo1: "swo_on (insert x (set xs)) lt"
      using Cons.prems by (rule swo_on_subset) auto
    have ih: "sorted_wrt (\<lambda>a b. lt b a) (x # take (desc_run lt x xs) xs)"
      using Cons.IH [OF swo1] by simp
    have "lt y p" if "y \<in> set (take (desc_run lt x xs) xs)" for y
    proof -
      have "lt y x" using ih that by simp
      moreover have "y \<in> set xs" using that by (rule in_set_takeD)
      ultimately show ?thesis
        using swo_trans [OF Cons.prems, of y x p] True by simp
    qed
    then show ?thesis using True ih by simp
  qed
qed

lemma count_run_Cons:
  "xs \<noteq> [] \<Longrightarrow> count_run lt (x # xs) =
     (if lt (hd xs) x then (Suc (desc_run lt x xs), True) else (Suc (asc_run lt x xs), False))"
  by (cases xs) auto

lemma filter_at_most_one:
  "sorted_wrt R xs \<Longrightarrow> \<forall>x\<in>set xs. \<forall>y\<in>set xs. R x y \<longrightarrow> \<not> (P x \<and> P y) \<Longrightarrow>
   length (filter P xs) \<le> 1"
proof (induction xs)
  case Nil
  then show ?case by simp
next
  case (Cons x xs)
  show ?case
  proof (cases "P x")
    case True
    with Cons.prems have "filter P xs = []" by (auto simp: filter_empty_conv)
    then show ?thesis by simp
  next
    case False
    with Cons show ?thesis by simp
  qed
qed

lemma rev_short: "length xs \<le> 1 \<Longrightarrow> rev xs = xs"
  by (cases xs) auto

lemma desc_rev_stable:
  assumes swo: "swo_on (insert a (set run)) lt"
    and desc: "sorted_wrt (\<lambda>a b. lt b a) run"
  shows "sorted_wrt (\<lambda>a b. \<not> lt b a) (rev run) \<and>
         filter (tied lt a) (rev run) = filter (tied lt a) run"
proof
  have "sorted_wrt lt (rev run)" using desc by (simp add: sorted_wrt_rev)
  then show "sorted_wrt (\<lambda>a b. \<not> lt b a) (rev run)"
    by (rule sorted_wrt_mono_rel [rotated]) (use swo swo_asym [OF swo] in auto)
  have "\<not> (tied lt a x \<and> tied lt a y)" if "x \<in> set run" "y \<in> set run" "lt y x" for x y
    using swo_negtrans [OF swo, of y a x] that by (auto simp: tied_def)
  then have "length (filter (tied lt a) run) \<le> 1"
    using desc by (intro filter_at_most_one [where R = "\<lambda>a b. lt b a"]) auto
  then show "filter (tied lt a) (rev run) = filter (tied lt a) run"
    by (simp add: rev_filter [symmetric] rev_short)
qed

lemma mset_listsort: "mset (listsort lt xs) = mset xs"
proof -
  have "mset (take n xs) + mset (drop n xs) = mset xs" for n
    by (metis append_take_drop_id mset_append)
  then show ?thesis
    by (simp add: listsort_def mset_binarysort Let_def split: prod.splits)
qed

lemma listsort_sorted_stable:
  assumes swo: "swo_on (insert a (set xs)) lt"
  shows "sorted_wrt (\<lambda>a b. \<not> lt b a) (listsort lt xs) \<and>
         filter (tied lt a) (listsort lt xs) = filter (tied lt a) xs"
proof (cases "length xs < 2")
  case True
  then have "length xs \<le> 1" by simp
  then have "sorted_wrt (\<lambda>a b. \<not> lt b a) xs" by (cases xs) auto
  with True show ?thesis by (simp add: listsort_def)
next
  case False
  then obtain x ys where xs: "xs = x # ys" and ys: "ys \<noteq> []"
    by (cases xs) auto
  define n where "n = fst (count_run lt xs)"
  define run where "run = (if snd (count_run lt xs) then rev (take n xs) else take n xs)"
  have ls: "listsort lt xs = binarysort lt run (drop n xs)"
    using False by (simp add: listsort_def run_def n_def Let_def split: prod.splits)
  have swox: "swo_on (insert x (set ys)) lt"
    using swo by (rule swo_on_subset) (auto simp: xs)
  have swot: "swo_on (insert a (set (take n xs))) lt"
    using swo by (rule swo_on_subset) (auto dest: in_set_takeD)
  have run: "sorted_wrt (\<lambda>a b. \<not> lt b a) run \<and> filter (tied lt a) run = filter (tied lt a) (take n xs)"
  proof (cases "lt (hd ys) x")
    case True
    then have "sorted_wrt (\<lambda>a b. lt b a) (take n xs)"
      using desc_run_sorted [OF swox] ys by (simp add: n_def xs count_run_Cons)
    moreover have "run = rev (take n xs)"
      using True ys by (simp add: run_def xs count_run_Cons)
    ultimately show ?thesis using desc_rev_stable [OF swot] by simp
  next
    case False
    then have "sorted_wrt (\<lambda>a b. \<not> lt b a) (take n xs)"
      using asc_run_sorted [OF swox] ys by (simp add: n_def xs count_run_Cons)
    moreover have "run = take n xs"
      using False ys by (simp add: run_def xs count_run_Cons)
    ultimately show ?thesis by simp
  qed
  have setrun: "set run = set (take n xs)" by (simp add: run_def)
  have swob: "swo_on (insert a (set run \<union> set (drop n xs))) lt"
    unfolding setrun using swo
    by (rule swo_on_subset) (auto dest: in_set_takeD in_set_dropD)
  have "filter (tied lt a) (run @ drop n xs) = filter (tied lt a) xs"
    using run by (metis append_take_drop_id filter_append)
  with binarysort_sorted_stable [OF conjunct1 [OF run] swob] show ?thesis
    unfolding ls by simp
qed

subsection \<open>\<^verbatim>\<open>generate\<close> as a whole\<close>

lemma sort_averages_alt: "sort_averages ops avs = rev (listsort (avg_lt ops) (rev avs))"
  by (simp add: sort_averages_def avg_lt_def [abs_def])

lemma mset_sort_averages: "mset (sort_averages ops avs) = mset avs"
  by (simp add: sort_averages_alt mset_listsort)

lemma swo_on_avg: "swo_on (snd ` S) (flt ops) \<Longrightarrow> swo_on S (avg_lt ops)"
  unfolding swo_on_def avg_lt_def by blast

lemma sort_averages_sorted_stable:
  assumes "swo_on (snd ` set avs) (flt ops)" and "a \<in> set avs"
  shows "sorted_wrt (\<lambda>a b. \<not> avg_lt ops a b) (sort_averages ops avs) \<and>
         filter (tied (avg_lt ops) a) (sort_averages ops avs) = filter (tied (avg_lt ops) a) avs"
proof -
  have "swo_on (insert a (set (rev avs))) (avg_lt ops)"
    using swo_on_avg [OF assms(1)] assms(2) by (simp add: insert_absorb)
  from listsort_sorted_stable [OF this] show ?thesis
    by (simp add: sort_averages_alt sorted_wrt_rev rev_filter [symmetric])
qed

lemma alist_by_keys:
  assumes "distinct (map fst d)" and "\<forall>k\<in>set (map fst d). map_of d k = Some (f k)"
  shows "d = map (\<lambda>k. (k, f k)) (map fst d)"
proof -
  have "p = (fst p, f (fst p))" if "p \<in> set d" for p
  proof -
    have "map_of d (fst p) = Some (snd p)" using assms(1) that by simp
    moreover have "map_of d (fst p) = Some (f (fst p))" using assms(2) that by simp
    ultimately show ?thesis by (simp add: prod_eq_iff)
  qed
  then have "map (\<lambda>p. (fst p, f (fst p))) d = map (\<lambda>p. p) d"
    by (intro map_cong) auto
  then show ?thesis by (simp add: comp_def)
qed

lemma gdps_of_nonempty: "c \<in> country ` set data \<Longrightarrow> gdps_of ops c data \<noteq> []"
  by (auto simp: gdps_of_def filter_empty_conv)

lemma generate_ok:
  assumes "list_all (row_ok ops) data"
  shows "generate ops data = Inr (sort_averages ops (averages_of ops data))"
proof -
  from accumulate_all_ok [OF assms] obtain d where acc: "accumulate ops data [] = Inr d"
    by blast
  have keys: "map fst d = first_seen (map country data)"
    using accumulate_keys [OF acc] by (simp add: first_seen_def)
  have vals: "map_of d c = Some (gdps_of ops c data)" if "c \<in> set (map fst d)" for c
    using accumulate_values [OF acc, of c] that by (simp add: keys set_first_seen)
  have d: "d = map (\<lambda>c. (c, gdps_of ops c data)) (first_seen (map country data))"
    using alist_by_keys [of d "\<lambda>c. gdps_of ops c data"] vals keys distinct_first_seen [of "map country data"]
    by simp
  have "\<forall>gs\<in>snd ` set d. gs \<noteq> []"
    by (subst d) (auto simp: set_first_seen gdps_of_nonempty)
  from compute_averages_nonempty [OF this, of ops]
  have "compute_averages ops d = Inr (map (\<lambda>(c, gs). (c, mean ops gs)) d)" .
  also have "map (\<lambda>(c, gs). (c, mean ops gs)) d = averages_of ops data"
    by (subst d) (simp add: averages_of_def comp_def)
  finally show ?thesis using acc by (simp add: generate_def)
qed

lemma generate_Inr:
  assumes "generate ops data = Inr rep"
  shows "list_all (row_ok ops) data \<and> rep = sort_averages ops (averages_of ops data)"
proof -
  from assms obtain d where "accumulate ops data [] = Inr d"
    by (auto simp: generate_def split: sum.splits)
  then have ok: "list_all (row_ok ops) data" by (rule accumulate_Inr_ok)
  from generate_ok [OF ok] assms show ?thesis using ok by simp
qed

lemma generate_first_bad:
  "list_all (row_ok ops) pre \<Longrightarrow> \<not> row_ok ops r \<Longrightarrow>
   generate ops (pre @ r # post) =
     Inl (ValueError (if lacks_column r then schema_msg else invalid_msg r))"
  by (simp add: generate_def accumulate_first_bad)

lemma generate_error:
  assumes "generate ops data = Inl e"
  shows "\<exists>m. e = ValueError m"
proof (cases "list_all (row_ok ops) data")
  case True
  from generate_ok [OF True] assms show ?thesis by simp
next
  case False
  then have "\<exists>x\<in>set data. \<not> row_ok ops x" by (simp add: list_all_iff)
  from split_list_first_prop [OF this]
  obtain pre r post where "data = pre @ r # post" "\<not> row_ok ops r" "\<forall>x\<in>set pre. \<not> \<not> row_ok ops x"
    by blast
  with generate_first_bad [of ops pre r post] assms show ?thesis
    by (simp add: list_all_iff)
qed

subsection \<open>Rows of a file\<close>

lemma read_rows_ok:
  "list_all is_record items \<Longrightarrow>
   read_rows fieldnames items data = Inr (data @ kept_rows fieldnames items)"
proof (induction items arbitrary: data)
  case Nil
  then show ?case by (simp add: kept_rows_def dict_rows_def)
next
  case (Cons it items)
  then obtain cs where it: "it = Record cs" by (cases it) auto
  from Cons have ih: "read_rows fieldnames items d = Inr (d @ kept_rows fieldnames items)" for d
    by simp
  show ?case
    by (simp add: it ih kept_rows_def dict_rows_def)
qed

lemma update_fresh: "k \<notin> fst ` set d \<Longrightarrow> AList.update k v d = d @ [(k, v)]"
  by (induction d) auto

lemma zip_dict_distinct:
  "distinct (map fst kvs) \<Longrightarrow> fst ` set d \<inter> fst ` set kvs = {} \<Longrightarrow>
   foldl (\<lambda>d (k, v). AList.update k (Some v) d) d kvs = d @ map (\<lambda>(k, v). (k, Some v)) kvs"
proof (induction kvs arbitrary: d)
  case Nil
  then show ?case by simp
next
  case (Cons kv kvs)
  obtain k v where kv: "kv = (k, v)" by (cases kv)
  have fresh: "k \<notin> fst ` set d" using Cons.prems(2) by (auto simp: kv)
  have "fst ` set (d @ [(k, Some v)]) \<inter> fst ` set kvs = {}"
    using Cons.prems by (auto simp: kv)
  with Cons.IH [of "d @ [(k, Some v)]"] Cons.prems(1) show ?case
    by (simp add: kv update_fresh [OF fresh])
qed

lemma make_row_square:
  assumes "length cs = length fieldnames" and "distinct fieldnames"
  shows "make_row fieldnames cs = \<lparr> cells = zip fieldnames (map Some cs), rest = None \<rparr>"
proof -
  have "distinct (map fst (zip fieldnames cs))" using assms by simp
  from zip_dict_distinct [OF this, of "[]"]
  have "foldl (\<lambda>d (k, v). AList.update k (Some v) d) [] (zip fieldnames cs)
      = map (\<lambda>(k, v). (k, Some v)) (zip fieldnames cs)" by simp
  also have "\<dots> = zip fieldnames (map Some cs)"
    by (simp add: zip_map2)
  finally show ?thesis using assms(1) by (simp add: make_row_def Let_def)
qed

lemma all_blank_square:
  assumes "length cs = length fieldnames" and "distinct fieldnames"
  shows "all_blank (make_row fieldnames cs) \<longleftrightarrow> (\<forall>c\<in>set cs. c = [])"
  using assms(1) by (simp add: make_row_square [OF assms] all_blank_def list_all_iff)

lemma map_of_fill:
  "map_of (foldl (\<lambda>d k. AList.update k None d) d ks) k =
     (if k \<in> set ks then Some None else map_of d k)"
  by (induction ks arbitrary: d) (auto simp: update_conv')

lemma dom_zip_dict:
  "map_of (foldl (\<lambda>d (k, v). AList.update k (Some v) d) d kvs) k = None \<longleftrightarrow>
     k \<notin> fst ` set kvs \<and> map_of d k = None"
proof (induction kvs arbitrary: d)
  case Nil
  then show ?case by simp
next
  case (Cons kv kvs)
  obtain a b where kv: "kv = (a, b)" by (cases kv)
  show ?case
    using Cons.IH [of "AList.update a (Some b) d"] by (auto simp: kv update_conv')
qed

lemma short_row_cells:
  assumes "length cs < length fieldnames"
  shows "cells (make_row fieldnames cs) =
           foldl (\<lambda>d k. AList.update k None d)
             (foldl (\<lambda>d (k, v). AList.update k (Some v) d) [] (zip fieldnames cs))
             (drop (length cs) fieldnames)"
    and "rest (make_row fieldnames cs) = None"
  using assms by (simp_all add: make_row_def Let_def)

lemma short_row_missing:
  assumes "length cs < length fieldnames" and "k \<in> set (drop (length cs) fieldnames)"
  shows "map_of (cells (make_row fieldnames cs)) k = Some None"
  using assms by (simp add: short_row_cells map_of_fill)

lemma short_row_has_key:
  assumes "length cs < length fieldnames" and "k \<in> set fieldnames"
  shows "has_key (make_row fieldnames cs) k"
proof (cases "k \<in> set (drop (length cs) fieldnames)")
  case True
  then show ?thesis using assms(1) by (simp add: has_key_def short_row_missing)
next
  case False
  have "set fieldnames = set (take (length cs) fieldnames) \<union> set (drop (length cs) fieldnames)"
    by (metis append_take_drop_id set_append)
  with False assms(2) have "k \<in> set (take (length cs) fieldnames)" by auto
  moreover have "map fst (zip fieldnames cs) = take (length cs) fieldnames"
    using assms(1) by (simp add: map_fst_zip_take min_def)
  ultimately have "k \<in> fst ` set (zip fieldnames cs)"
    by (metis set_map)
  then have "map_of (foldl (\<lambda>d (k, v). AList.update k (Some v) d) [] (zip fieldnames cs)) k \<noteq> None"
    by (simp add: dom_zip_dict)
  then show ?thesis using assms(1) False
    by (simp add: has_key_def short_row_cells map_of_fill)
qed

lemma short_row_not_blank:
  assumes "length cs < length fieldnames"
  shows "\<not> all_blank (make_row fieldnames cs)"
proof -
  from assms have "drop (length cs) fieldnames \<noteq> []" by simp
  then obtain k where k: "k \<in> set (drop (length cs) fieldnames)"
    by (cases "drop (length cs) fieldnames") auto
  from short_row_missing [OF assms k]
  have "(k, None) \<in> set (cells (make_row fieldnames cs))" by (rule map_of_SomeD)
  then have "\<exists>v\<in>set (cells (make_row fieldnames cs)). snd v \<noteq> Some []"
    by (intro bexI [where x = "(k, None)"]) simp_all
  then show ?thesis by (simp add: all_blank_def list_all_iff)
qed

lemma long_row_not_blank:
  "length fieldnames < length cs \<Longrightarrow> \<not> all_blank (make_row fieldnames cs)"
  by (simp add: make_row_def all_blank_def Let_def)

lemma all_blank_blank_line:
  assumes "distinct fieldnames" and "cs \<noteq> []"
  shows "all_blank (make_row fieldnames cs) \<longleftrightarrow> blank_line fieldnames cs"
proof -
  consider "length cs < length fieldnames" | "length fieldnames < length cs"
    | "length cs = length fieldnames" by linarith
  then show ?thesis
  proof cases
    case 1
    with short_row_not_blank [OF 1] show ?thesis using assms(2) by (simp add: blank_line_def)
  next
    case 2
    with long_row_not_blank [OF 2] show ?thesis using assms(2) by (simp add: blank_line_def)
  next
    case 3
    with all_blank_square [OF 3 assms(1)] show ?thesis
      using assms(2) by (simp add: blank_line_def list_all_iff)
  qed
qed

lemma kept_rows_lines:
  assumes "distinct fieldnames"
  shows "kept_rows fieldnames items =
           map (make_row fieldnames) (filter (\<lambda>cs. \<not> blank_line fieldnames cs) (records_of items))"
proof -
  have "filter (\<lambda>cs. \<not> all_blank (make_row fieldnames cs)) (filter (\<lambda>cs. cs \<noteq> []) xs)
      = filter (\<lambda>cs. \<not> blank_line fieldnames cs) xs" for xs
  proof (induction xs)
    case Nil
    then show ?case by simp
  next
    case (Cons cs xs)
    show ?case
    proof (cases "cs = []")
      case True
      then show ?thesis using Cons by (simp add: blank_line_def)
    next
      case False
      then show ?thesis using Cons all_blank_blank_line [OF assms False] by simp
    qed
  qed
  then show ?thesis
    by (simp add: kept_rows_def dict_rows_def filter_map comp_def)
qed

subsection \<open>Loading several files\<close>

lemma read_rows_Exception: "read_rows fieldnames items data = Inl e \<Longrightarrow> is_Exception e"
  by (induction fieldnames items data rule: read_rows.induct) (auto split: if_splits)

lemma read_body_Exception: "read_body filepath items = Inl e \<Longrightarrow> is_Exception e"
  by (induction filepath items rule: read_body.induct)
     (auto split: if_splits dest: read_rows_Exception)

lemma read_csv_file_Exception: "read_csv_file fs filepath = Inl e \<Longrightarrow> is_Exception e"
  by (auto simp: read_csv_file_def split: csv_file.splits sum.splits exn.splits if_splits
           dest: read_body_Exception)

lemma read_loop_eq:
  "read_loop fs filepaths all_data errors tried =
     (tried @ filepaths,
      if errors @ List.map_filter (failure_msg fs) filepaths \<noteq> []
      then Inl (ValueError (join [CHR 0x0A] (errors @ List.map_filter (failure_msg fs) filepaths)))
      else Inr (all_data @ concat (map (rows_of fs) filepaths)))"
proof (induction filepaths arbitrary: all_data errors tried)
  case Nil
  then show ?case by (simp add: List.map_filter_simps)
next
  case (Cons p ps)
  show ?case
  proof (cases "read_csv_file fs p")
    case (Inr file_data)
    then show ?thesis
      by (simp add: Cons.IH List.map_filter_simps failure_msg_def rows_of_def)
  next
    case (Inl e)
    from read_csv_file_Exception [OF Inl] have ex: "is_Exception e" .
    show ?thesis
    proof (cases e)
      case (FileNotFoundError m)
      with Inl show ?thesis
        by (simp add: Cons.IH List.map_filter_simps failure_msg_def rows_of_def)
    qed (use Inl ex in \<open>simp_all add: Cons.IH List.map_filter_simps failure_msg_def rows_of_def\<close>)
  qed
qed

lemma wording_distinct: "not_found_msg p \<noteq> read_error_msg q e"
  by (simp add: not_found_msg_def read_error_msg_def)

lemma map_filter_Nil_iff: "List.map_filter f xs = [] \<longleftrightarrow> list_all (\<lambda>x. f x = None) xs"
  by (induction xs) (auto simp: List.map_filter_simps split: option.splits)

lemma read_csv_file_nonempty: "read_csv_file fs filepath = Inr data \<Longrightarrow> data \<noteq> []"
  by (auto simp: read_csv_file_def split: csv_file.splits sum.splits exn.splits if_splits)

lemma read_csv_files_result:
  "snd (read_csv_files fs filepaths) =
     (if list_all (\<lambda>p. failure_msg fs p = None) filepaths
      then Inr (concat (map (rows_of fs) filepaths))
      else Inl (ValueError (join [CHR 0x0A] (List.map_filter (failure_msg fs) filepaths))))"
  and "fst (read_csv_files fs filepaths) = filepaths"
  by (simp_all add: read_csv_files_def read_loop_eq map_filter_Nil_iff)

lemma read_csv_files_nonempty:
  assumes "filepaths \<noteq> []" and "snd (read_csv_files fs filepaths) = Inr data"
  shows "data \<noteq> []"
proof -
  from assms(2) have ok: "list_all (\<lambda>p. failure_msg fs p = None) filepaths"
    and data: "data = concat (map (rows_of fs) filepaths)"
    by (auto simp: read_csv_files_result split: if_splits)
  from assms(1) obtain p ps where ps: "filepaths = p # ps" by (cases filepaths) auto
  with ok have "failure_msg fs p = None" by simp
  then obtain d where "read_csv_file fs p = Inr d"
    by (auto simp: failure_msg_def split: sum.splits exn.splits)
  then have "rows_of fs p \<noteq> []"
    using read_csv_file_nonempty [of fs p d] by (simp add: rows_of_def)
  then show ?thesis by (simp add: data ps)
qed

lemma read_csv_files_error:
  "snd (read_csv_files fs filepaths) = Inl e \<Longrightarrow> \<exists>m. e = ValueError m"
  by (auto simp: read_csv_files_result split: if_splits)

subsection \<open>Runs of \<^verbatim>\<open>main\<close>\<close>

lemma create_registered: "name \<in> set (map fst reporters) \<Longrightarrow> create name = Inr AverageGDPReporter"
  by (simp add: create_def reporters_def)

lemmas main_unfold = main_def main_try_def enter_def eprint_def finish_def Let_def

lemma main_usage:
  assumes "report argv \<notin> set (map fst reporters)"
  shows "main ops tabulate fs argv None =
           \<lparr> stdout = [], stderr = [Usage (map fst reporters)], opened = [],
             stages = [ParseArgs], exit_code = 2 \<rparr>"
  using assms by (simp add: main_unfold parse_arguments_def)

lemma main_load_error:
  assumes "parse_arguments argv = Inr args" and "snd (read_csv_files fs (files args)) = Inl e"
  shows "exit_code (main ops tabulate fs argv None) = 1"
proof -
  from read_csv_files_error [OF assms(2)] obtain m where e: "e = ValueError m" by blast
  obtain tried where "read_csv_files fs (files args) = (tried, Inl (ValueError m))"
    using assms(2) e by (cases "read_csv_files fs (files args)") auto
  then show ?thesis using assms(1) by (simp add: main_unfold)
qed

lemma main_generate_error:
  assumes "parse_arguments argv = Inr args"
    and "snd (read_csv_files fs (files args)) = Inr data"
    and "generate ops data = Inl e"
  shows "exit_code (main ops tabulate fs argv None) = 1"
proof -
  from generate_error [OF assms(3)] obtain m where e: "e = ValueError m" by blast
  obtain tried where r: "read_csv_files fs (files args) = (tried, Inr data)"
    using assms(2) by (cases "read_csv_files fs (files args)") auto
  have "report args \<in> set (map fst reporters)"
    using assms(1) by (auto simp: parse_arguments_def split: if_splits)
  from create_registered [OF this] show ?thesis
    using assms(1,3) r e by (simp add: main_unfold)
qed

lemma main_success:
  assumes "parse_arguments argv = Inr args"
    and "snd (read_csv_files fs (files args)) = Inr data"
    and "generate ops data = Inr report_data"
  shows "exit_code (main ops tabulate fs argv None) = 0 \<and>
         stdout (main ops tabulate fs argv None) = [[CHR 0x0A] @ format_report ops tabulate report_data]"
proof -
  obtain tried where r: "read_csv_files fs (files args) = (tried, Inr data)"
    using assms(2) by (cases "read_csv_files fs (files args)") auto
  have a: "report args \<in> set (map fst reporters)" "files args \<noteq> []"
    using assms(1) by (auto simp: parse_arguments_def split: if_splits)
  from read_csv_files_nonempty [OF a(2) assms(2)] have "data \<noteq> []" .
  with create_registered [OF a(1)] show ?thesis
    using assms(1,3) r by (simp add: main_unfold)
qed

lemma main_interrupt:
  assumes "s \<in> set (stages (main ops tabulate fs argv None))"
  shows "exit_code (main ops tabulate fs argv (Some s)) = 130"
proof (cases "parse_arguments argv")
  case (Inl usage)
  have "s \<in> set [ParseArgs]" using assms Inl by (simp add: main_unfold)
  then show ?thesis using Inl by (simp add: main_unfold)
next
  case (Inr args)
  then have a: "report args \<in> set (map fst reporters)"
    by (auto simp: parse_arguments_def split: if_splits)
  note c = create_registered [OF a]
  obtain tried res where r: "read_csv_files fs (files args) = (tried, res)"
    by (cases "read_csv_files fs (files args)")
  show ?thesis
  proof (cases res)
    case (Inl e)
    then obtain m where e: "res = Inl (ValueError m)"
      using read_csv_files_error [of fs "files args" e] r by auto
    have "s \<in> set [ParseArgs, LoadFiles]"
      using assms Inr r e by (simp add: main_unfold)
    then show ?thesis using Inr r e by (auto simp: main_unfold)
  next
    case data: (Inr data)
    show ?thesis
    proof (cases "data = []")
      case True
      have "s \<in> set [ParseArgs, LoadFiles]"
        using assms Inr r data True by (simp add: main_unfold)
      then show ?thesis using Inr r data True by (auto simp: main_unfold)
    next
      case False
      show ?thesis
      proof (cases "generate ops data")
        case (Inl e)
        then obtain m where e: "generate ops data = Inl (ValueError m)"
          using generate_error by blast
        have "s \<in> set [ParseArgs, LoadFiles, CreateReporter, Generate]"
          using assms Inr r data False c e by (simp add: main_unfold)
        then show ?thesis using Inr r data False c e by (auto simp: main_unfold)
      next
        case rep: (Inr report_data)
        have "s \<in> set [ParseArgs, LoadFiles, CreateReporter, Generate, Format, Print]"
          using assms Inr r data False c rep by (simp add: main_unfold)
        then show ?thesis using Inr r data False c rep by (auto simp: main_unfold)
      qed
    qed
  qed
qed

subsection \<open>Digits\<close>

lemma digit_char_simps:
  "digit_char 0 = CHR ''0''" "digit_char 1 = CHR ''1''" "digit_char 2 = CHR ''2''"
  "digit_char 3 = CHR ''3''" "digit_char 4 = CHR ''4''" "digit_char 5 = CHR ''5''"
  "digit_char 6 = CHR ''6''" "digit_char 7 = CHR ''7''" "digit_char 8 = CHR ''8''"
  "digit_char 9 = CHR ''9''" "digit_char (Suc 0) = CHR ''1''"
  by code_simp+

lemma round_half_even_samples:
  "round_half_even (\<bar>48777 / 2\<bar> * 100) = 2438850"
  "round_half_even (\<bar>35697 / 2\<bar> * 100) = 1784850"
  "round_half_even (\<bar>413833 / 100\<bar> * 100) = 413833"
  by code_simp+

subsection \<open>Order within a filtered list, and the sample run\<close>

lemma filter_pair_order:
  assumes "sorted_wrt R (filter P ys)" and "i < j" and "j < length ys"
    and "P (ys ! i)" and "P (ys ! j)"
  shows "R (ys ! i) (ys ! j)"
proof -
  have ys: "ys = take j ys @ ys ! j # drop (Suc j) ys"
    using assms(3) by (rule id_take_nth_drop)
  have "sorted_wrt R (filter P (take j ys) @ ys ! j # filter P (drop (Suc j) ys))"
    using assms(1,5) by (subst (asm) ys) simp
  then have "\<forall>x\<in>set (filter P (take j ys)). R x (ys ! j)"
    by (simp add: sorted_wrt_append)
  moreover have "ys ! i \<in> set (take j ys)"
  proof -
    have "i < length (take j ys)" using assms(2,3) by simp
    then have "take j ys ! i \<in> set (take j ys)" by (rule nth_mem)
    then show ?thesis using assms(2) by simp
  qed
  ultimately show ?thesis using assms(4) by simp
qed

lemma generate_sample: "generate exact_ops sample_data = Inr sample_report"
  unfolding sample_data_def sample_report_def by code_simp

section \<open>The claims\<close>

subsection \<open>C1: one report row per country, holding its mean\<close>

text \<open>
  C1. Whenever \<^verbatim>\<open>generate\<close> succeeds on a dataset, the report it returns holds exactly
  one pair for each distinct value of the \<^verbatim>\<open>country\<close> cell that occurs in the rows of
  the dataset, and no other pair; the average of the pair of a country is the sum of the
  parsed \<^verbatim>\<open>gdp\<close> values of the rows of that country, of which there is at least one,
  divided by their number.
\<close>

theorem generate_one_row_per_country:
  assumes "generate ops data = Inr report_data"
  shows "distinct (map fst report_data) \<and>
         set (map fst report_data) = country ` set data \<and>
         (\<forall>(c, avg) \<in> set report_data.
            gdps_of ops c data \<noteq> [] \<and>
            avg = truediv ops (fsum ops (gdps_of ops c data)) (length (gdps_of ops c data)))"
proof -
  from generate_Inr [OF assms]
  have rep: "report_data = sort_averages ops (averages_of ops data)" by simp
  have m: "mset report_data = mset (averages_of ops data)"
    by (simp add: rep mset_sort_averages)
  have keys: "map fst (averages_of ops data) = first_seen (map country data)"
    by (simp add: averages_of_def comp_def)
  have "mset (map fst report_data) = mset (map fst (averages_of ops data))"
    using m by simp
  then have mk: "mset (map fst report_data) = mset (first_seen (map country data))"
    by (simp only: keys)
  have d: "distinct (map fst report_data)"
    using mset_eq_imp_distinct_iff [OF mk] distinct_first_seen [of "map country data"] by simp
  have s: "set (map fst report_data) = country ` set data"
    using mset_eq_setD [OF mk] by (simp add: set_first_seen)
  have "set report_data = set (averages_of ops data)"
    using m by (rule mset_eq_setD)
  then have "\<forall>(c, avg) \<in> set report_data.
      gdps_of ops c data \<noteq> [] \<and>
      avg = truediv ops (fsum ops (gdps_of ops c data)) (length (gdps_of ops c data))"
    by (auto simp: averages_of_def mean_def set_first_seen gdps_of_nonempty)
  with d s show ?thesis by simp
qed

text \<open>The theorem at the sample dataset, on which \<^verbatim>\<open>generate\<close> succeeds.\<close>

theorem generate_one_row_per_country_witness:
  "generate exact_ops sample_data = Inr sample_report \<and>
   distinct (map fst sample_report) \<and>
   set (map fst sample_report) = country ` set sample_data"
proof -
  from generate_one_row_per_country [OF generate_sample]
  have "distinct (map fst sample_report)"
    and "set (map fst sample_report) = country ` set sample_data"
    by simp_all
  with generate_sample show ?thesis by simp
qed

subsection \<open>C2: the report is sorted by average, descending and stable\<close>

text \<open>
  C2, as stated, fails. Python reads the cell \<^verbatim>\<open>nan\<close> as a float, every comparison with
  it is false, and \<^verbatim>\<open>list.sort\<close> then finds the three averages below already in order:
  the report keeps the average 1 before the average 2.
\<close>

theorem generate_nan_not_descending:
  "generate exact_ops [mk_row ''A'' ''1'', mk_row ''B'' ''nan'', mk_row ''C'' ''2'']
     = Inr [(Some ''A'', Fin 1), (Some ''B'', NaN), (Some ''C'', Fin 2)] \<and>
   flt exact_ops (Fin 1) (Fin 2)"
  by code_simp

text \<open>
  C2, amended. Whenever \<^verbatim>\<open>generate\<close> succeeds and \<^verbatim>\<open><\<close> is a strict weak order on
  the averages of the report (none of them is \<^verbatim>\<open>nan\<close>), the report is sorted by
  average descending: no pair has a smaller average than a later pair. The sort is
  stable: of two pairs whose averages are tied, the one whose country appears first in
  the dataset comes first.
\<close>

theorem generate_sorted_stable:
  assumes "generate ops data = Inr report_data"
    and "swo_on (snd ` set report_data) (flt ops)"
  shows "(\<forall>i j. i < j \<and> j < length report_data \<longrightarrow>
            \<not> flt ops (snd (report_data ! i)) (snd (report_data ! j))) \<and>
         (\<forall>i j. i < j \<and> j < length report_data \<and>
                 tied (flt ops) (snd (report_data ! i)) (snd (report_data ! j)) \<longrightarrow>
            first_pos (fst (report_data ! i)) (map country data)
              < first_pos (fst (report_data ! j)) (map country data))"
proof -
  let ?avs = "averages_of ops data"
  let ?R = "\<lambda>p q. first_pos (fst p) (map country data) < first_pos (fst q) (map country data)"
  from generate_Inr [OF assms(1)]
  have rep: "report_data = sort_averages ops ?avs" by simp
  have "mset report_data = mset ?avs"
    by (simp add: rep mset_sort_averages)
  then have sets: "set report_data = set ?avs"
    by (rule mset_eq_setD)
  then have swo: "swo_on (snd ` set ?avs) (flt ops)" using assms(2) by simp
  have first: "sorted_wrt ?R ?avs"
    using first_seen_sorted [of "map country data"]
    by (simp add: averages_of_def sorted_wrt_map)
  have desc: "\<not> flt ops (snd (report_data ! i)) (snd (report_data ! j))"
    if "i < j" "j < length report_data" for i j
  proof -
    from that have "i < length report_data" by simp
    then have "report_data ! i \<in> set ?avs" using sets nth_mem by blast
    from sort_averages_sorted_stable [OF swo this]
    have "sorted_wrt (\<lambda>a b. \<not> avg_lt ops a b) report_data" by (simp add: rep)
    with that show ?thesis by (simp add: sorted_wrt_iff_nth_less avg_lt_def)
  qed
  have stab: "?R (report_data ! i) (report_data ! j)"
    if ij: "i < j" "j < length report_data"
      and t: "tied (flt ops) (snd (report_data ! i)) (snd (report_data ! j))" for i j
  proof -
    let ?a = "report_data ! i"
    let ?P = "tied (avg_lt ops) ?a"
    from ij have "i < length report_data" by simp
    then have a: "?a \<in> set ?avs" using sets nth_mem by blast
    from sort_averages_sorted_stable [OF swo a]
    have f: "filter ?P report_data = filter ?P ?avs" by (simp add: rep)
    have srt: "sorted_wrt ?R (filter ?P report_data)"
      unfolding f using first by (rule sorted_wrt_filter)
    have pi: "?P ?a"
      using swo_irrefl [OF swo_on_avg [OF swo] a] by (simp add: tied_def)
    have pj: "?P (report_data ! j)" using t by (simp add: tied_def avg_lt_def)
    show ?thesis
      by (rule filter_pair_order [where R = ?R and P = ?P and ys = report_data and i = i and j = j,
            OF srt ij pi pj])
  qed
  show ?thesis
  proof (intro conjI allI impI)
    fix i j assume "i < j \<and> j < length report_data"
    then show "\<not> flt ops (snd (report_data ! i)) (snd (report_data ! j))"
      using desc by simp
  next
    fix i j
    assume "i < j \<and> j < length report_data \<and>
      tied (flt ops) (snd (report_data ! i)) (snd (report_data ! j))"
    then show "first_pos (fst (report_data ! i)) (map country data)
              < first_pos (fst (report_data ! j)) (map country data)"
      using stab by simp
  qed
qed

text \<open>The theorem at the sample dataset: \<open>B\<close> with the larger average comes first, and
  of \<open>A\<close> and \<open>C\<close>, which tie, \<open>A\<close> comes first as it does in the dataset.\<close>

theorem generate_sorted_stable_witness:
  "generate exact_ops sample_data = Inr sample_report \<and>
   swo_on (snd ` set sample_report) (flt exact_ops) \<and>
   \<not> flt exact_ops (snd (sample_report ! 0)) (snd (sample_report ! 1)) \<and>
   tied (flt exact_ops) (snd (sample_report ! 1)) (snd (sample_report ! 2)) \<and>
   first_pos (fst (sample_report ! 1)) (map country sample_data)
     < first_pos (fst (sample_report ! 2)) (map country sample_data)"
proof -
  have s: "swo_on (snd ` set sample_report) (flt exact_ops)"
    by (simp add: swo_on_def sample_report_def exact_ops_def)
  have t: "tied (flt exact_ops) (snd (sample_report ! 1)) (snd (sample_report ! 2))"
    by (simp add: tied_def sample_report_def exact_ops_def)
  have l: "(0::nat) < 1 \<and> 1 < length sample_report"
    by (simp add: sample_report_def)
  have l': "(1::nat) < 2 \<and> 2 < length sample_report \<and>
      tied (flt exact_ops) (snd (sample_report ! 1)) (snd (sample_report ! 2))"
    using t by (simp add: sample_report_def)
  note th = generate_sorted_stable [OF generate_sample s]
  from conjunct1 [OF th, rule_format, OF l]
  have d: "\<not> flt exact_ops (snd (sample_report ! 0)) (snd (sample_report ! 1))" .
  from conjunct2 [OF th, rule_format, OF l']
  have f: "first_pos (fst (sample_report ! 1)) (map country sample_data)
     < first_pos (fst (sample_report ! 2)) (map country sample_data)" .
  from generate_sample s d t f show ?thesis by simp
qed

subsection \<open>C5: a row that lacks a required column\<close>

text \<open>
  C5, as stated, fails. \<^verbatim>\<open>generate\<close> checks and parses one row at a time, so a row whose
  \<^verbatim>\<open>gdp\<close> cell does not parse, standing before the row that lacks the columns, ends
  the run first, with the error of an invalid value and not with the one of the schema.
\<close>

theorem generate_invalid_before_schema:
  "lacks_column \<lparr> cells = [(''name'', Some ''USA''), (''value'', Some ''25462'')], rest = None \<rparr> \<and>
   generate exact_ops
     [mk_row ''USA'' ''abc'',
      \<lparr> cells = [(''name'', Some ''USA''), (''value'', Some ''25462'')], rest = None \<rparr>]
     = Inl (ValueError ''Invalid GDP value: abc'') \<and>
   ValueError ''Invalid GDP value: abc'' \<noteq> ValueError schema_msg"
  by code_simp

text \<open>
  C5, amended. On every dataset that holds a row lacking the \<^verbatim>\<open>country\<close> or the
  \<^verbatim>\<open>gdp\<close> key, \<^verbatim>\<open>generate\<close> fails and returns no aggregate. When every row before
  such a row has both keys and a \<^verbatim>\<open>gdp\<close> cell that parses, the failure is raised on
  that row and is the \<^verbatim>\<open>ValueError\<close> with the message
  \<^verbatim>\<open>CSV must contain 'country' and 'gdp' columns\<close>.
\<close>

theorem generate_schema_error:
  "((\<exists>r\<in>set data. lacks_column r) \<longrightarrow> (\<exists>e. generate ops data = Inl e)) \<and>
   (list_all (row_ok ops) pre \<and> lacks_column r \<longrightarrow>
      generate ops (pre @ r # post) = Inl (ValueError schema_msg))"
proof (intro conjI impI)
  assume "\<exists>r\<in>set data. lacks_column r"
  then have "\<not> list_all (row_ok ops) data" by (auto simp: list_all_iff row_ok_def)
  then have "generate ops data \<noteq> Inr rep" for rep
    using generate_Inr [of ops data rep] by blast
  then show "\<exists>e. generate ops data = Inl e" by (cases "generate ops data") auto
next
  assume "list_all (row_ok ops) pre \<and> lacks_column r"
  then show "generate ops (pre @ r # post) = Inl (ValueError schema_msg)"
    using generate_first_bad [of ops pre r post] by (simp add: row_ok_def)
qed

text \<open>The theorem at a dataset of three rows, the second of which has other columns.\<close>

theorem generate_schema_error_witness:
  "list_all (row_ok exact_ops) [mk_row ''USA'' ''1''] \<and>
   lacks_column \<lparr> cells = [(''name'', Some ''USA''), (''value'', Some ''25462'')], rest = None \<rparr> \<and>
   generate exact_ops
     ([mk_row ''USA'' ''1''] @
      \<lparr> cells = [(''name'', Some ''USA''), (''value'', Some ''25462'')], rest = None \<rparr> #
      [mk_row ''China'' ''2''])
     = Inl (ValueError ''CSV must contain 'country' and 'gdp' columns'')"
proof -
  let ?r = "\<lparr> cells = [(''name'', Some ''USA''), (''value'', Some ''25462'')], rest = None \<rparr>"
  have a: "list_all (row_ok exact_ops) [mk_row ''USA'' ''1'']" by code_simp
  have b: "lacks_column ?r" by code_simp
  from conjunct2 [OF generate_schema_error [of _ exact_ops "[mk_row ''USA'' ''1'']" ?r "[mk_row ''China'' ''2'']"]]
    a b
  show ?thesis by (simp add: schema_msg_def)
qed

subsection \<open>C6: a \<^verbatim>\<open>gdp\<close> cell that does not parse\<close>

text \<open>
  C6. On every dataset all of whose rows have the \<^verbatim>\<open>country\<close> and the \<^verbatim>\<open>gdp\<close> key
  and one of whose rows has a \<^verbatim>\<open>gdp\<close> cell that \<^verbatim>\<open>float\<close> refuses, \<^verbatim>\<open>generate\<close>
  fails with the \<^verbatim>\<open>ValueError\<close> whose message is \<^verbatim>\<open>Invalid GDP value: \<close> followed by
  the raw cell of an offending row: of the first one, where there are several.
\<close>

theorem generate_invalid_value:
  assumes "list_all (\<lambda>r. \<not> lacks_column r) data"
    and "\<exists>r\<in>set data. unparseable ops r"
  shows "\<exists>pre r post. data = pre @ r # post \<and> list_all (row_ok ops) pre \<and> unparseable ops r \<and>
           generate ops data =
             Inl (ValueError (''Invalid GDP value: '' @ py_str (row_get r ''gdp'')))"
proof -
  from split_list_first_prop [OF assms(2)]
  obtain pre r post where d: "data = pre @ r # post" and u: "unparseable ops r"
    and f: "\<forall>x\<in>set pre. \<not> unparseable ops x" by blast
  have ok: "list_all (row_ok ops) pre"
    using assms(1) f by (auto simp: d list_all_iff row_ok_def)
  have "\<not> lacks_column r" using assms(1) by (simp add: d)
  with generate_first_bad [of ops pre r post] ok u
  have "generate ops data = Inl (ValueError (invalid_msg r))"
    by (simp add: d row_ok_def)
  with d ok u show ?thesis by (auto simp: invalid_msg_def)
qed

text \<open>The theorem at the cell \<^verbatim>\<open>not_a_number\<close>.\<close>

theorem generate_invalid_value_witness:
  "list_all (\<lambda>r. \<not> lacks_column r) [mk_row ''USA'' ''not_a_number''] \<and>
   unparseable exact_ops (mk_row ''USA'' ''not_a_number'') \<and>
   generate exact_ops [mk_row ''USA'' ''not_a_number'']
     = Inl (ValueError ''Invalid GDP value: not_a_number'')"
proof -
  have a: "list_all (\<lambda>r. \<not> lacks_column r) [mk_row ''USA'' ''not_a_number'']" by code_simp
  have b: "unparseable exact_ops (mk_row ''USA'' ''not_a_number'')" by code_simp
  then have "\<exists>r\<in>set [mk_row ''USA'' ''not_a_number'']. unparseable exact_ops r" by simp
  from generate_invalid_value [OF a this]
  obtain pre r post where d: "[mk_row ''USA'' ''not_a_number''] = pre @ r # post"
    and g: "generate exact_ops [mk_row ''USA'' ''not_a_number'']
       = Inl (ValueError (''Invalid GDP value: '' @ py_str (row_get r ''gdp'')))"
    by blast
  from d have "r = mk_row ''USA'' ''not_a_number''"
    by (cases pre) simp_all
  then have "py_str (row_get r ''gdp'') = ''not_a_number''"
    by (simp add: mk_row_def row_get_def py_str_def)
  with a b g show ?thesis by simp
qed

subsection \<open>C3: a file without a header line\<close>

text \<open>
  C3 says that a file whose only line is a data row fails to load with the error of
  missing headers, as the test \<^verbatim>\<open>test_read_csv_file_no_headers\<close> of the repository
  expects. \<^verbatim>\<open>read_csv_file\<close> does otherwise: \<^verbatim>\<open>csv.DictReader\<close> takes the first line of
  a file for its header whatever it holds, so the check of line 103 passes, no row
  follows, and the file is refused for holding no data.
\<close>

theorem read_csv_file_only_data_row:
  "read_csv_file (\<lambda>p. Opened [Record [''USA'', ''2023'', ''25462'']]) ''data.csv''
     = Inl (ValueError (no_data_msg ''data.csv'')) \<and>
   no_data_msg ''data.csv'' \<noteq> no_headers_msg ''data.csv''"
  by code_simp

subsection \<open>C4: loading several files\<close>

text \<open>
  C4. \<^verbatim>\<open>read_csv_files\<close> hands every path to \<^verbatim>\<open>read_csv_file\<close>, in the order given,
  whatever happens to the paths before it. When every path loads, it returns the rows of
  the files, file after file, each in the order of the file. When one does not, it fails
  with a \<^verbatim>\<open>ValueError\<close> whose message holds one line for each path that failed, in the
  order of the paths: \<^verbatim>\<open>File not found: \<close> and the path for a file that does not exist,
  \<^verbatim>\<open>Error reading \<close>, the path and the error for any other failure, and the two are
  never the same line.
\<close>

theorem read_csv_files_all_paths:
  "fst (read_csv_files fs filepaths) = filepaths \<and>
   snd (read_csv_files fs filepaths) =
     (if list_all (\<lambda>p. failure_msg fs p = None) filepaths
      then Inr (concat (map (rows_of fs) filepaths))
      else Inl (ValueError (join [CHR 0x0A] (List.map_filter (failure_msg fs) filepaths)))) \<and>
   not_found_msg p \<noteq> read_error_msg q e"
  by (simp add: read_csv_files_def read_loop_eq map_filter_Nil_iff wording_distinct)

text \<open>The theorem at two paths that load, and at three of which the first does not exist
  and the last holds a header only.\<close>

theorem read_csv_files_all_paths_witness:
  "read_csv_files sample_fs [''a.csv'', ''b.csv''] =
     ([''a.csv'', ''b.csv''], Inr [mk_row ''USA'' ''1'', mk_row ''China'' ''2'']) \<and>
   read_csv_files sample_fs [''x.csv'', ''a.csv'', ''e.csv''] =
     ([''x.csv'', ''a.csv'', ''e.csv''],
      Inl (ValueError (''File not found: x.csv'' @ [CHR 0x0A] @
                       ''Error reading e.csv: No data found in file '' @ sq ''e.csv'')))"
proof -
  have ok: "list_all (\<lambda>p. failure_msg sample_fs p = None) [''a.csv'', ''b.csv'']"
    by code_simp
  have rows: "concat (map (rows_of sample_fs) [''a.csv'', ''b.csv''])
      = [mk_row ''USA'' ''1'', mk_row ''China'' ''2'']"
    by code_simp
  have bad: "\<not> list_all (\<lambda>p. failure_msg sample_fs p = None) [''x.csv'', ''a.csv'', ''e.csv'']"
    by code_simp
  have msgs: "join [CHR 0x0A] (List.map_filter (failure_msg sample_fs) [''x.csv'', ''a.csv'', ''e.csv''])
      = ''File not found: x.csv'' @ [CHR 0x0A] @
        ''Error reading e.csv: No data found in file '' @ sq ''e.csv''"
    by code_simp
  note t1 = read_csv_files_all_paths [of sample_fs "[''a.csv'', ''b.csv'']"]
  note t2 = read_csv_files_all_paths [of sample_fs "[''x.csv'', ''a.csv'', ''e.csv'']"]
  have "read_csv_files sample_fs [''a.csv'', ''b.csv''] =
     ([''a.csv'', ''b.csv''], Inr [mk_row ''USA'' ''1'', mk_row ''China'' ''2''])"
    using t1 ok rows by (simp add: prod_eq_iff)
  moreover have "read_csv_files sample_fs [''x.csv'', ''a.csv'', ''e.csv''] =
     ([''x.csv'', ''a.csv'', ''e.csv''],
      Inl (ValueError (''File not found: x.csv'' @ [CHR 0x0A] @
                       ''Error reading e.csv: No data found in file '' @ sq ''e.csv'')))"
    using t2 bad msgs by (simp add: prod_eq_iff)
  ultimately show ?thesis by simp
qed

subsection \<open>C7: blank rows and the empty dataset\<close>

text \<open>
  C7, as stated, fails. \<^verbatim>\<open>read_csv_file\<close> tests the values of the row that
  \<^verbatim>\<open>csv.DictReader\<close> builds, not the cells of the line. Under the header
  \<^verbatim>\<open>country,gdp\<close> the line \<^verbatim>\<open>,,\<close> has three cells, each the empty string, yet its row
  holds the list of the surplus cell, is kept, and the load succeeds where the claim
  has it fail for want of data. Under the header \<^verbatim>\<open>a,a\<close> the line \<^verbatim>\<open>x,\<close> has a cell that
  is not empty, yet its row keeps the last cell under \<^verbatim>\<open>a\<close> only and is skipped.
\<close>

theorem read_csv_file_ragged_rows:
  "list_all (\<lambda>c. c = []) ['''', '''', ''''] \<and>
   read_csv_file (\<lambda>p. Opened [Record [''country'', ''gdp''], Record ['''', '''', '''']]) ''data.csv''
     = Inr [\<lparr> cells = [(''country'', Some ''''), (''gdp'', Some '''')], rest = Some [''''] \<rparr>] \<and>
   read_csv_file (\<lambda>p. Opened [Record [''a'', ''a''], Record [''x'', '''']]) ''data.csv''
     = Inl (ValueError (no_data_msg ''data.csv''))"
  by code_simp

text \<open>
  C7, amended. On a file that opens, reads without error and has a header of distinct
  names, \<^verbatim>\<open>read_csv_file\<close> skips a data row if and only if the row has exactly as many
  cells as the header has names and every one of them is exactly the empty string;
  blank lines are passed over as well. A row with some empty and some non-empty cells is
  kept, and so is a row with fewer or with more cells than the header, whatever they
  hold. The load fails for want of data exactly when no row is left after that, and
  returns the rows left otherwise.
\<close>

theorem read_csv_file_skips_blank_rows:
  assumes "fs filepath = Opened (Record fieldnames # items)"
    and "fieldnames \<noteq> []"
    and "distinct fieldnames"
    and "list_all is_record items"
  shows "read_csv_file fs filepath =
           (if filter (\<lambda>cs. \<not> blank_line fieldnames cs) (records_of items) = []
            then Inl (ValueError (no_data_msg filepath))
            else Inr (map (make_row fieldnames)
                       (filter (\<lambda>cs. \<not> blank_line fieldnames cs) (records_of items))))"
proof -
  have "read_body filepath (Record fieldnames # items) = Inr (kept_rows fieldnames items)"
    using assms(2) read_rows_ok [OF assms(4), of fieldnames "[]"] by simp
  then have "read_csv_file fs filepath =
      (if kept_rows fieldnames items = [] then Inl (ValueError (no_data_msg filepath))
       else Inr (kept_rows fieldnames items))"
    by (simp add: read_csv_file_def assms(1))
  then show ?thesis
    by (simp add: kept_rows_lines [OF assms(3)])
qed

text \<open>The theorem at a file with two rows of empty cells, a blank line and the row
  \<^verbatim>\<open>USA,\<close>, which is kept, and at a file that holds rows of empty cells only.\<close>

theorem read_csv_file_skips_blank_rows_witness:
  "read_csv_file blank_fs ''a.csv'' = Inr [mk_row ''USA'' ''''] \<and>
   read_csv_file blank_fs ''b.csv'' = Inl (ValueError (no_data_msg ''b.csv''))"
proof -
  let ?fn = "[''country'', ''gdp'']"
  let ?ia = "[Record ['''', ''''], Record [], Record [''USA'', ''''], Record ['''', '''']]"
  let ?ib = "[Record ['''', ''''], Record []]"
  have a: "blank_fs ''a.csv'' = Opened (Record ?fn # ?ia)" by (simp add: blank_fs_def)
  have b: "blank_fs ''b.csv'' = Opened (Record ?fn # ?ib)" by (simp add: blank_fs_def)
  have n: "?fn \<noteq> []" and d: "distinct ?fn" by simp_all
  have ra: "list_all is_record ?ia" and rb: "list_all is_record ?ib" by simp_all
  have ka: "filter (\<lambda>cs. \<not> blank_line ?fn cs) (records_of ?ia) = [[''USA'', '''']]"
    by code_simp
  have kb: "filter (\<lambda>cs. \<not> blank_line ?fn cs) (records_of ?ib) = []"
    by code_simp
  have m: "make_row ?fn [''USA'', ''''] = mk_row ''USA'' ''''" by code_simp
  note ta = read_csv_file_skips_blank_rows
    [where fs = blank_fs and filepath = "''a.csv''", OF a n d ra]
  note tb = read_csv_file_skips_blank_rows
    [where fs = blank_fs and filepath = "''b.csv''", OF b n d rb]
  from ta ka m have 1: "read_csv_file blank_fs ''a.csv'' = Inr [mk_row ''USA'' '''']" by simp
  from tb kb have 2: "read_csv_file blank_fs ''b.csv'' = Inl (ValueError (no_data_msg ''b.csv''))"
    by simp
  from 1 2 show ?thesis by simp
qed

subsection \<open>C8: exit codes\<close>

text \<open>
  C8. A report name that is not registered is refused by the parsing of the arguments:
  the run ends with exit code 2, \<^verbatim>\<open>argparse\<close> has shown the registered names, and no
  file was opened. A run whose files fail to load, or on whose rows \<^verbatim>\<open>generate\<close> fails,
  ends with exit code 1. A run that is interrupted at a stage it enters ends with exit
  code 130. A run that succeeds ends with exit code 0, the table on the output stream.
\<close>

theorem main_exit_codes:
  "(report argv \<notin> set (map fst reporters) \<longrightarrow>
      exit_code (main ops tabulate fs argv None) = 2 \<and>
      opened (main ops tabulate fs argv None) = [] \<and>
      stderr (main ops tabulate fs argv None) = [Usage (map fst reporters)]) \<and>
   (parse_arguments argv = Inr args \<and> snd (read_csv_files fs (files args)) = Inl e \<longrightarrow>
      exit_code (main ops tabulate fs argv None) = 1) \<and>
   (parse_arguments argv = Inr args \<and> snd (read_csv_files fs (files args)) = Inr data \<and>
    generate ops data = Inl e \<longrightarrow>
      exit_code (main ops tabulate fs argv None) = 1) \<and>
   (s \<in> set (stages (main ops tabulate fs argv None)) \<longrightarrow>
      exit_code (main ops tabulate fs argv (Some s)) = 130) \<and>
   (parse_arguments argv = Inr args \<and> snd (read_csv_files fs (files args)) = Inr data \<and>
    generate ops data = Inr report_data \<longrightarrow>
      exit_code (main ops tabulate fs argv None) = 0 \<and>
      stdout (main ops tabulate fs argv None)
        = [[CHR 0x0A] @ format_report ops tabulate report_data])"
proof (intro conjI impI)
  assume a: "report argv \<notin> set (map fst reporters)"
  from main_usage [OF a, of ops tabulate fs]
  show "exit_code (main ops tabulate fs argv None) = 2"
    and "opened (main ops tabulate fs argv None) = []"
    and "stderr (main ops tabulate fs argv None) = [Usage (map fst reporters)]"
    by simp_all
next
  assume "parse_arguments argv = Inr args \<and> snd (read_csv_files fs (files args)) = Inl e"
  then show "exit_code (main ops tabulate fs argv None) = 1"
    using main_load_error by blast
next
  assume "parse_arguments argv = Inr args \<and> snd (read_csv_files fs (files args)) = Inr data \<and>
    generate ops data = Inl e"
  then show "exit_code (main ops tabulate fs argv None) = 1"
    using main_generate_error by blast
next
  assume "s \<in> set (stages (main ops tabulate fs argv None))"
  then show "exit_code (main ops tabulate fs argv (Some s)) = 130"
    by (rule main_interrupt)
next
  assume a: "parse_arguments argv = Inr args \<and> snd (read_csv_files fs (files args)) = Inr data \<and>
    generate ops data = Inr report_data"
  then have a1: "parse_arguments argv = Inr args"
    and a2: "snd (read_csv_files fs (files args)) = Inr data"
    and a3: "generate ops data = Inr report_data" by simp_all
  from main_success [OF a1 a2 a3, of tabulate]
  show "exit_code (main ops tabulate fs argv None) = 0"
    and "stdout (main ops tabulate fs argv None)
        = [[CHR 0x0A] @ format_report ops tabulate report_data]"
    by simp_all
qed

text \<open>The theorem at five runs: an unknown report, a missing file, an empty
  \<^verbatim>\<open>gdp\<close> cell, an interrupt during \<^verbatim>\<open>generate\<close>, and a run that succeeds.\<close>

theorem main_exit_codes_witness:
  "exit_code (main exact_ops plain_table sample_fs
      \<lparr> files = [''a.csv''], report = ''bogus'' \<rparr> None) = 2 \<and>
   opened (main exact_ops plain_table sample_fs
      \<lparr> files = [''a.csv''], report = ''bogus'' \<rparr> None) = [] \<and>
   exit_code (main exact_ops plain_table sample_fs
      \<lparr> files = [''a.csv'', ''x.csv''], report = ''average-gdp'' \<rparr> None) = 1 \<and>
   exit_code (main exact_ops plain_table blank_fs
      \<lparr> files = [''a.csv''], report = ''average-gdp'' \<rparr> None) = 1 \<and>
   exit_code (main exact_ops plain_table sample_fs
      \<lparr> files = [''a.csv''], report = ''average-gdp'' \<rparr> (Some Generate)) = 130 \<and>
   exit_code (main exact_ops plain_table sample_fs
      \<lparr> files = [''a.csv'', ''b.csv''], report = ''average-gdp'' \<rparr> None) = 0 \<and>
   stdout (main exact_ops plain_table sample_fs
      \<lparr> files = [''a.csv'', ''b.csv''], report = ''average-gdp'' \<rparr> None)
     = [[CHR 0x0A] @ ''Country | Average GDP (billions USD)'' @ [CHR 0x0A] @
        ''China | 2.00'' @ [CHR 0x0A] @ ''USA | 1.00'']"
proof -
  let ?bogus = "\<lparr> files = [''a.csv''], report = ''bogus'' \<rparr>"
  let ?ax = "\<lparr> files = [''a.csv'', ''x.csv''], report = ''average-gdp'' \<rparr>"
  let ?a = "\<lparr> files = [''a.csv''], report = ''average-gdp'' \<rparr>"
  let ?ab = "\<lparr> files = [''a.csv'', ''b.csv''], report = ''average-gdp'' \<rparr>"
  have h1: "report ?bogus \<notin> set (map fst reporters)" by code_simp
  have h2: "parse_arguments ?ax = Inr ?ax \<and>
      snd (read_csv_files sample_fs (files ?ax))
        = Inl (ValueError (''File not found: x.csv''))"
    by code_simp
  have h3: "parse_arguments ?a = Inr ?a \<and>
      snd (read_csv_files blank_fs (files ?a)) = Inr [mk_row ''USA'' ''''] \<and>
      generate exact_ops [mk_row ''USA'' ''''] = Inl (ValueError ''Invalid GDP value: '')"
    by code_simp
  have h4: "Generate \<in> set (stages (main exact_ops plain_table sample_fs ?a None))"
    by code_simp
  have h5: "parse_arguments ?ab = Inr ?ab \<and>
      snd (read_csv_files sample_fs (files ?ab)) = Inr [mk_row ''USA'' ''1'', mk_row ''China'' ''2''] \<and>
      generate exact_ops [mk_row ''USA'' ''1'', mk_row ''China'' ''2'']
        = Inr [(Some ''China'', Fin 2), (Some ''USA'', Fin 1)]"
    by code_simp
  have f: "format_report exact_ops plain_table [(Some ''China'', Fin 2), (Some ''USA'', Fin 1)]
      = ''Country | Average GDP (billions USD)'' @ [CHR 0x0A] @
        ''China | 2.00'' @ [CHR 0x0A] @ ''USA | 1.00''"
    by code_simp
  note t1 = main_exit_codes [where argv = ?bogus and ops = exact_ops and tabulate = plain_table
      and fs = sample_fs, THEN conjunct1, rule_format, OF h1]
  note t2 = main_exit_codes [where argv = ?ax and ops = exact_ops and tabulate = plain_table
      and fs = sample_fs, THEN conjunct2, THEN conjunct1, rule_format, OF h2]
  note t3 = main_exit_codes [where argv = ?a and ops = exact_ops and tabulate = plain_table
      and fs = blank_fs, THEN conjunct2, THEN conjunct2, THEN conjunct1, rule_format, OF h3]
  note t4 = main_exit_codes [where argv = ?a and ops = exact_ops and tabulate = plain_table
      and fs = sample_fs, THEN conjunct2, THEN conjunct2, THEN conjunct2, THEN conjunct1,
      rule_format, OF h4]
  note t5 = main_exit_codes [where argv = ?ab and ops = exact_ops and tabulate = plain_table
      and fs = sample_fs, THEN conjunct2, THEN conjunct2, THEN conjunct2, THEN conjunct2,
      rule_format, OF h5]
  from t1 t2 t3 t4 t5 f show ?thesis by simp
qed

subsection \<open>C9: the table\<close>

text \<open>
  C9 is about the text that \<^verbatim>\<open>tabulate\<close> returns, and \<^verbatim>\<open>tabulate\<close> is not code of the
  repository. What \<^verbatim>\<open>format\<close> itself does is to hand it the two headers and, for every
  pair of the report, the country and the average written with two digits after the
  point: here at the report of the test \<^verbatim>\<open>test_average_gdp_format\<close>, whose averages are
  24388.50, 17848.50 and 4138.33.
  \<^verbatim>\<open>tabulate\<close> is called with its defaults \<^verbatim>\<open>disable_numparse=False\<close> and
  \<^verbatim>\<open>floatfmt="g"\<close>: it reads a column of strings that all look like numbers as
  numbers and writes them anew in its own format, so the digits that \<^verbatim>\<open>format\<close>
  chose are not the digits of the table.
\<close>

theorem format_report_test_input:
  "format_report exact_ops tabulate
     [(Some ''United States'', Fin (48777 / 2)), (Some ''China'', Fin (35697 / 2)),
      (Some ''Germany'', Fin (413833 / 100))]
   = tabulate [''Country'', ''Average GDP (billions USD)'']
       [(Some ''United States'', ''24388.50''), (Some ''China'', ''17848.50''),
        (Some ''Germany'', ''4138.33'')]"
  apply (simp only: format_report_def exact_ops_def float_ops.simps list.map prod.case
      xfmt2f.simps Let_def round_half_even_samples)
  apply (simp add: str_nat.simps digit_char_simps)
  done

subsection \<open>C10: a row shorter than the header\<close>

text \<open>
  C10. A line that is not blank and has fewer cells than the header has columns gives
  a row in which every missing column holds \<^verbatim>\<open>None\<close>, not the empty string; the row
  is therefore not blank, and \<^verbatim>\<open>read_csv_file\<close> keeps it. When \<^verbatim>\<open>gdp\<close> is among the
  missing columns, \<^verbatim>\<open>country\<close> is a column, and the rows before it are accepted,
  \<^verbatim>\<open>generate\<close> fails on it with the message \<^verbatim>\<open>Invalid GDP value: None\<close>.
\<close>

theorem short_row_is_kept:
  assumes "length cs < length fieldnames" and "cs \<noteq> []"
  shows "(\<forall>k\<in>set (drop (length cs) fieldnames).
            map_of (cells (make_row fieldnames cs)) k = Some None) \<and>
         \<not> all_blank (make_row fieldnames cs) \<and>
         read_rows fieldnames (Record cs # items) data
           = read_rows fieldnames items (data @ [make_row fieldnames cs]) \<and>
         (''gdp'' \<in> set (drop (length cs) fieldnames) \<and> ''country'' \<in> set fieldnames \<and>
          list_all (row_ok ops) pre \<longrightarrow>
            generate ops (pre @ make_row fieldnames cs # post)
              = Inl (ValueError ''Invalid GDP value: None''))"
proof (intro conjI ballI impI)
  fix k assume "k \<in> set (drop (length cs) fieldnames)"
  then show "map_of (cells (make_row fieldnames cs)) k = Some None"
    using assms(1) by (rule short_row_missing [rotated])
next
  show nb: "\<not> all_blank (make_row fieldnames cs)"
    using assms(1) by (rule short_row_not_blank)
  then show "read_rows fieldnames (Record cs # items) data
           = read_rows fieldnames items (data @ [make_row fieldnames cs])"
    using assms(2) by simp
next
  let ?r = "make_row fieldnames cs"
  assume a: "''gdp'' \<in> set (drop (length cs) fieldnames) \<and> ''country'' \<in> set fieldnames \<and>
          list_all (row_ok ops) pre"
  then have g: "map_of (cells ?r) ''gdp'' = Some None"
    using short_row_missing [OF assms(1)] by simp
  have "''gdp'' \<in> set fieldnames" using a by (auto dest: in_set_dropD)
  then have keys: "has_key ?r ''country''" "has_key ?r ''gdp''"
    using a short_row_has_key [OF assms(1)] by simp_all
  have get: "row_get ?r ''gdp'' = None" using g by (simp add: row_get_def)
  then have bad: "\<not> row_ok ops ?r" by (simp add: row_ok_def unparseable_def py_float_def)
  have "\<not> lacks_column ?r" using keys by (simp add: lacks_column_def)
  with generate_first_bad [of ops pre ?r post] a bad
  show "generate ops (pre @ ?r # post) = Inl (ValueError ''Invalid GDP value: None'')"
    by (simp add: invalid_msg_def get py_str_def)
qed

text \<open>The theorem at the line \<^verbatim>\<open>X\<close> under the header \<^verbatim>\<open>country,gdp\<close>.\<close>

theorem short_row_is_kept_witness:
  "length [''X''] < length [''country'', ''gdp''] \<and>
   make_row [''country'', ''gdp''] [''X'']
     = \<lparr> cells = [(''country'', Some ''X''), (''gdp'', None)], rest = None \<rparr> \<and>
   \<not> all_blank (make_row [''country'', ''gdp''] [''X'']) \<and>
   read_rows [''country'', ''gdp''] [Record [''X'']] []
     = Inr [make_row [''country'', ''gdp''] [''X'']] \<and>
   generate exact_ops ([mk_row ''USA'' ''1''] @ make_row [''country'', ''gdp''] [''X''] # [])
     = Inl (ValueError ''Invalid GDP value: None'')"
proof -
  let ?fn = "[''country'', ''gdp'']"
  have l: "length [''X''] < length ?fn" and n: "[''X''] \<noteq> []" by simp_all
  note t = short_row_is_kept [OF l n, of "[]" "[]" exact_ops "[mk_row ''USA'' ''1'']" "[]"]
  have m: "make_row ?fn [''X'']
     = \<lparr> cells = [(''country'', Some ''X''), (''gdp'', None)], rest = None \<rparr>"
    by code_simp
  have p: "''gdp'' \<in> set (drop (length [''X'']) ?fn) \<and> ''country'' \<in> set ?fn \<and>
          list_all (row_ok exact_ops) [mk_row ''USA'' ''1'']"
    by code_simp
  from t have 1: "\<not> all_blank (make_row ?fn [''X''])" by blast
  from t have 2: "read_rows ?fn [Record [''X'']] [] = Inr [make_row ?fn [''X'']]" by simp
  from conjunct2 [OF conjunct2 [OF conjunct2 [OF t]], rule_format, OF p]
  have 3: "generate exact_ops ([mk_row ''USA'' ''1''] @ make_row ?fn [''X''] # [])
     = Inl (ValueError ''Invalid GDP value: None'')" .
  from l m 1 2 3 show ?thesis by blast
qed

end
